theory Spec2Isabelle
  imports Complex_Main
begin

section \<open>Data model of the page component (src/pages/Index.tsx)\<close>

text \<open>
  The component \<open>Index\<close> keeps its state in \<open>useState\<close> slots and \<open>useRef\<close> cells.
  The model gathers them in one record, \<open>page\<close>.  A state setter is a write to its slot,
  in program order; a functional updater \<open>setX(f)\<close> evaluates \<open>f\<close> on the current value
  (running whatever \<open>f\<close> does on the way) and then writes the result; a setter called
  inside an updater is applied after the updater's own result.  A string is the list of
  the bytes of its UTF-8 encoding.  Counters of seconds are mathematical integers; the
  number that \<open>parseInt\<close> delivers is rounded to a double as the engine does.
\<close>

section \<open>Strings and numbers of JavaScript\<close>

text \<open>The white space of ECMAScript (\<open>WhiteSpace\<close> and \<open>LineTerminator\<close>), each character
  in UTF-8: tab, line feed, vertical tab, form feed, carriage return, space, U+00A0,
  U+1680, U+2000 to U+200A, U+2028, U+2029, U+202F, U+205F, U+3000 and U+FEFF.\<close>

definition whiteSpaceCodes :: "string list" where
  "whiteSpaceCodes =
     [[CHR 0x09], [CHR 0x0A], [CHR 0x0B], [CHR 0x0C], [CHR 0x0D], [CHR 0x20],
      [CHR 0xC2, CHR 0xA0],
      [CHR 0xE1, CHR 0x9A, CHR 0x80],
      [CHR 0xE2, CHR 0x80, CHR 0x80], [CHR 0xE2, CHR 0x80, CHR 0x81],
      [CHR 0xE2, CHR 0x80, CHR 0x82], [CHR 0xE2, CHR 0x80, CHR 0x83],
      [CHR 0xE2, CHR 0x80, CHR 0x84], [CHR 0xE2, CHR 0x80, CHR 0x85],
      [CHR 0xE2, CHR 0x80, CHR 0x86], [CHR 0xE2, CHR 0x80, CHR 0x87],
      [CHR 0xE2, CHR 0x80, CHR 0x88], [CHR 0xE2, CHR 0x80, CHR 0x89],
      [CHR 0xE2, CHR 0x80, CHR 0x8A],
      [CHR 0xE2, CHR 0x80, CHR 0xA8], [CHR 0xE2, CHR 0x80, CHR 0xA9],
      [CHR 0xE2, CHR 0x80, CHR 0xAF],
      [CHR 0xE2, CHR 0x81, CHR 0x9F],
      [CHR 0xE3, CHR 0x80, CHR 0x80],
      [CHR 0xEF, CHR 0xBB, CHR 0xBF]]"

text \<open>The number of bytes of the white space character a string starts with, 0 when it
  starts with none; and the string without its leading white space (the first argument
  of \<open>trimStartFrom\<close> counts the bytes of the current character still to drop).\<close>

definition whiteSpaceLength :: "string \<Rightarrow> nat" where
  "whiteSpaceLength s =
     (case List.find (\<lambda>w. take (length w) s = w) whiteSpaceCodes of
        None \<Rightarrow> 0
      | Some w \<Rightarrow> length w)"

fun trimStartFrom :: "nat \<Rightarrow> string \<Rightarrow> string" where
  "trimStartFrom k [] = []"
| "trimStartFrom (Suc k) (c # cs) = trimStartFrom k cs"
| "trimStartFrom 0 (c # cs) =
     (case whiteSpaceLength (c # cs) of 0 \<Rightarrow> c # cs | Suc k \<Rightarrow> trimStartFrom k cs)"

definition trimStart :: "string \<Rightarrow> string" where
  "trimStart s = trimStartFrom 0 s"

text \<open>A number that holds an integer or an infinity, with the comparisons the component
  makes: \<open>parsed > 0\<close> and \<open>prev + 1 >= effectiveLimitSeconds\<close>.\<close>

datatype number = NegInfinity | Number int | PosInfinity

definition negate :: "number \<Rightarrow> number" where
  "negate x =
     (case x of NegInfinity \<Rightarrow> PosInfinity | Number n \<Rightarrow> Number (- n) | PosInfinity \<Rightarrow> NegInfinity)"

definition isPositive :: "number \<Rightarrow> bool" where
  "isPositive x = (case x of NegInfinity \<Rightarrow> False | Number n \<Rightarrow> 0 < n | PosInfinity \<Rightarrow> True)"

definition atLeast_number :: "int \<Rightarrow> number \<Rightarrow> bool" where
  "atLeast_number a x = (case x of NegInfinity \<Rightarrow> True | Number n \<Rightarrow> n \<le> a | PosInfinity \<Rightarrow> False)"

text \<open>The double nearest to a non-negative integer, ties to the even significand of 53
  bits, and infinity from \<open>2^1024\<close> on.\<close>

fun bitLength :: "nat \<Rightarrow> nat" where
  "bitLength n = (if n = 0 then 0 else Suc (bitLength (n div 2)))"

declare bitLength.simps [simp del]

definition toNumber :: "nat \<Rightarrow> number" where
  "toNumber n =
     (if n < 2 ^ 53 then Number (int n)
      else let e = bitLength n - 53;
               q = n div 2 ^ e;
               r = n mod 2 ^ e;
               half = 2 ^ (e - 1);
               q' = (if half < r \<or> (r = half \<and> odd q) then q + 1 else q)
           in if 2 ^ 1024 \<le> q' * 2 ^ e then PosInfinity else Number (int (q' * 2 ^ e)))"

section \<open>State of the page\<close>

record MediaState =
  micOn :: bool
  camOn :: bool

text \<open>\<open>PackageOption\<close>: the field \<open>id\<close> is called \<open>pkg_id\<close>, \<open>label\<close> is \<open>pkg_label\<close>.
  The catalog's minute counts are natural numbers; the price is the decimal literal of the
  source, read as a rational.\<close>

record PackageOption =
  pkg_id :: string
  pkg_label :: string
  minutes :: nat
  price :: rat

definition CALL_DURATION_LIMIT_MINUTES :: int where
  "CALL_DURATION_LIMIT_MINUTES = 30"

definition p10 :: PackageOption where
  "p10 = \<lparr>pkg_id = ''p10'', pkg_label = ''10 minutos'', minutes = 10, price = 499 / 10\<rparr>"

definition p20 :: PackageOption where
  "p20 = \<lparr>pkg_id = ''p20'', pkg_label = ''20 minutos'', minutes = 20, price = 799 / 10\<rparr>"

definition p30 :: PackageOption where
  "p30 = \<lparr>pkg_id = ''p30'', pkg_label = ''30 minutos'', minutes = 30, price = 999 / 10\<rparr>"

definition PACKAGES :: "PackageOption list" where
  "PACKAGES = [p10, p20, p30]"

datatype ChatStep =
  Intro | Minutes | MinutesConfirmed | ContactTyping | Contact
  | ContactConfirmed | SummaryTyping | Summary | Finished

datatype ContactChannel = Whatsapp | Telegram | Email

datatype TrackKind = AudioTrack | VideoTrack

text \<open>A \<open>MediaStreamTrack\<close>: its kind, its \<open>enabled\<close> attribute, and whether its
  \<open>readyState\<close> is still \<open>live\<close> (\<open>stop()\<close> ends it).\<close>

record track =
  kind :: TrackKind
  enabled :: bool
  live :: bool

text \<open>
  Besides the slots and refs of the component, the record holds the part of the browser
  the component acts on: the table of registered interval timers (identifier and the
  limit its callback closed over), the next identifier \<open>setInterval\<close> hands out, the
  dependency values of the timer effect at its last run, the tracks on which \<open>stop()\<close>
  was called, and the calls of \<open>window.open\<close> (address and target).
\<close>

record page =
  inCall :: bool
  connecting :: bool
  duration :: int
  mediaState :: MediaState
  permissionError :: "string option"
  configVideoUrl :: "string option"
  configAudioUrl :: "string option"
  durationLimitSeconds :: "number option"
  hasDurationParam :: bool
  chatStep :: ChatStep
  selectedPackage :: "PackageOption option"
  contactChannel :: "ContactChannel option"
  contactValue :: string
  isTyping :: bool
  selfStreamRef :: "track list option"
  timerRef :: "nat option"
  intervals :: "(nat \<times> number) list"
  nextTimerId :: nat
  timerEffectDeps :: "(bool \<times> number option) option"
  stoppedTracks :: "track list"
  windowsOpened :: "(string \<times> string) list"

text \<open>The values \<open>useState\<close> and \<open>useRef\<close> are given at the first render; no timer is
  registered, and the browser's timer identifiers start at 1.\<close>

definition initial_page :: page where
  "initial_page =
     \<lparr>inCall = False, connecting = False, duration = 0,
      mediaState = \<lparr>micOn = True, camOn = True\<rparr>,
      permissionError = None, configVideoUrl = None, configAudioUrl = None,
      durationLimitSeconds = None, hasDurationParam = False,
      chatStep = Intro, selectedPackage = None, contactChannel = None,
      contactValue = [], isTyping = False,
      selfStreamRef = None, timerRef = None,
      intervals = [], nextTimerId = 1, timerEffectDeps = None,
      stoppedTracks = [], windowsOpened = []\<rparr>"

section \<open>The guided chat flow\<close>

text \<open>What the JSX renders: the chat card, the call room, and the footer buttons.\<close>

definition chat_rendered :: "page \<Rightarrow> bool" where
  "chat_rendered s = (\<not> hasDurationParam s \<and> \<not> inCall s)"

definition room_rendered :: "page \<Rightarrow> bool" where
  "room_rendered s = (hasDurationParam s \<and> inCall s)"

definition back_rendered :: "page \<Rightarrow> bool" where
  "back_rendered s =
     (chatStep s = Contact \<or> chatStep s = Summary \<or> chatStep s = SummaryTyping)"

definition generate_rendered :: "page \<Rightarrow> bool" where
  "generate_rendered s = (chatStep s = Summary \<and> selectedPackage s \<noteq> None)"

text \<open>Selecting a package bubble (rendered in \<open>intro\<close> and \<open>minutes\<close>).\<close>

definition selectPackage_onClick :: "PackageOption \<Rightarrow> page \<Rightarrow> page" where
  "selectPackage_onClick pkg s = s\<lparr>selectedPackage := Some pkg, chatStep := MinutesConfirmed\<rparr>"

definition click_package :: "PackageOption \<Rightarrow> page \<Rightarrow> page" where
  "click_package pkg s =
     (if chat_rendered s \<and> (chatStep s = Intro \<or> chatStep s = Minutes) \<and> pkg \<in> set PACKAGES
      then selectPackage_onClick pkg s else s)"

text \<open>The effect on \<open>chatStep\<close> that simulates typing: entering one of the four
  transient steps raises \<open>isTyping\<close> and arms a timeout; \<open>typing_timeout\<close> is the
  callback of the timeout armed for the current step (the effect's cleanup clears the
  timeout of a step that was left).\<close>

definition typing_effect :: "page \<Rightarrow> page" where
  "typing_effect s =
     (if chatStep s = MinutesConfirmed \<or> chatStep s = ContactTyping
         \<or> chatStep s = ContactConfirmed \<or> chatStep s = SummaryTyping
      then s\<lparr>isTyping := True\<rparr> else s)"

definition typing_timeout :: "page \<Rightarrow> page" where
  "typing_timeout s =
     (if chatStep s = MinutesConfirmed then s\<lparr>isTyping := False, chatStep := ContactTyping\<rparr>
      else if chatStep s = ContactTyping then s\<lparr>isTyping := False, chatStep := Contact\<rparr>
      else if chatStep s = ContactConfirmed then s\<lparr>isTyping := False, chatStep := SummaryTyping\<rparr>
      else if chatStep s = SummaryTyping then s\<lparr>isTyping := False, chatStep := Summary\<rparr>
      else s)"

text \<open>The \<open>Voltar\<close> button.\<close>

definition back_onClick :: "page \<Rightarrow> page" where
  "back_onClick s =
     (if chatStep s = Summary \<or> chatStep s = SummaryTyping
      then s\<lparr>chatStep := Contact\<rparr>
      else s\<lparr>chatStep := Minutes, selectedPackage := None,
             contactChannel := None, contactValue := []\<rparr>)"

definition click_back :: "page \<Rightarrow> page" where
  "click_back s = (if chat_rendered s \<and> back_rendered s then back_onClick s else s)"

text \<open>The channel buttons and the text input of the \<open>contact\<close> step; the input is
  rendered once a channel is chosen.\<close>

definition contact_rendered :: "page \<Rightarrow> bool" where
  "contact_rendered s = (chat_rendered s \<and> chatStep s = Contact \<and> selectedPackage s \<noteq> None)"

definition click_channel :: "ContactChannel \<Rightarrow> page \<Rightarrow> page" where
  "click_channel c s = (if contact_rendered s then s\<lparr>contactChannel := Some c\<rparr> else s)"

definition input_onChange :: "string \<Rightarrow> page \<Rightarrow> page" where
  "input_onChange v s =
     (if contact_rendered s \<and> contactChannel s \<noteq> None then s\<lparr>contactValue := v\<rparr> else s)"

text \<open>The \<open>Continuar\<close> button: disabled unless a channel is chosen and the trimmed value
  is not empty.  \<open>String.prototype.trim\<close> removes white space at both ends, so the trimmed
  value is empty exactly when nothing is left after the leading white space.\<close>

definition continue_disabled :: "page \<Rightarrow> bool" where
  "continue_disabled s = (contactChannel s = None \<or> trimStart (contactValue s) = [])"

definition continue_onClick :: "page \<Rightarrow> page" where
  "continue_onClick s = s\<lparr>chatStep := ContactConfirmed\<rparr>"

definition click_continue :: "page \<Rightarrow> page" where
  "click_continue s =
     (if chat_rendered s \<and> chatStep s = Contact \<and> \<not> continue_disabled s
      then continue_onClick s else s)"

text \<open>Number to string, as the template literal does for a non-negative integer.\<close>

definition digit_char :: "nat \<Rightarrow> char" where
  "digit_char d = char_of (48 + d)"

fun toString :: "nat \<Rightarrow> string" where
  "toString n = (if n < 10 then [digit_char n] else toString (n div 10) @ [digit_char (n mod 10)])"

declare toString.simps [simp del]

text \<open>The \<open>Gerar chamada de teste\<close> button, rendered only in \<open>summary\<close> with a package
  selected; \<open>origin\<close> is \<open>window.location.origin\<close>.\<close>

definition handoff_url :: "string \<Rightarrow> PackageOption \<Rightarrow> string" where
  "handoff_url origin pkg = origin @ ''/?seconds='' @ toString (minutes pkg * 60)"

definition generate_onClick :: "string \<Rightarrow> PackageOption \<Rightarrow> page \<Rightarrow> page" where
  "generate_onClick origin pkg s =
     s\<lparr>windowsOpened := windowsOpened s @ [(handoff_url origin pkg, ''_blank'')],
       chatStep := Finished\<rparr>"

definition click_generate :: "string \<Rightarrow> page \<Rightarrow> page" where
  "click_generate origin s =
     (if chat_rendered s \<and> generate_rendered s
      then (case selectedPackage s of None \<Rightarrow> s | Some pkg \<Rightarrow> generate_onClick origin pkg s)
      else s)"

text \<open>The \<open>Criar outra chamada\<close> button of the \<open>finished\<close> step.\<close>

definition createAnother_onClick :: "page \<Rightarrow> page" where
  "createAnother_onClick s =
     s\<lparr>chatStep := Minutes, selectedPackage := None, contactChannel := None, contactValue := []\<rparr>"

definition click_createAnother :: "page \<Rightarrow> page" where
  "click_createAnother s =
     (if chat_rendered s \<and> chatStep s = Finished then createAnother_onClick s else s)"

text \<open>The example walk through the chat: the 10-minute package, the typing pauses,
  channel e-mail, the address, \<open>Continuar\<close>, and the pauses up to the summary.\<close>

definition example_summary_page :: page where
  "example_summary_page =
     (typing_effect \<circ> typing_timeout \<circ> typing_effect \<circ> typing_timeout \<circ> typing_effect
        \<circ> click_continue \<circ> input_onChange ''a@b.com'' \<circ> click_channel Email
        \<circ> typing_effect \<circ> typing_timeout \<circ> typing_effect \<circ> typing_timeout \<circ> typing_effect
        \<circ> click_package p10) initial_page"

section \<open>Resolving the duration limit\<close>

text \<open>
  \<open>parseInt(string, 10)\<close> as ECMAScript defines it: leading white space is skipped, one
  sign is read, then the longest run of decimal digits; no digit gives \<open>NaN\<close> (here
  \<open>None\<close>), and whatever follows the digits is ignored.  The result is the number value
  of the integer read, that is the nearest double (the standard lets an engine
  approximate beyond 20 significant digits; the engines round correctly).
\<close>

definition isDigit :: "char \<Rightarrow> bool" where
  "isDigit c = (48 \<le> (of_char c :: nat) \<and> (of_char c :: nat) \<le> 57)"

definition digitValue :: "char \<Rightarrow> nat" where
  "digitValue c = of_char c - 48"

definition digitsValue :: "string \<Rightarrow> nat" where
  "digitsValue z = foldl (\<lambda>a c. 10 * a + digitValue c) 0 z"

definition parseInt :: "string \<Rightarrow> number option" where
  "parseInt str =
     (let s = trimStart str;
          negative = (case s of [] \<Rightarrow> False | c # _ \<Rightarrow> c = CHR ''-'');
          s' = (case s of [] \<Rightarrow> [] | c # cs \<Rightarrow> if c = CHR ''+'' \<or> c = CHR ''-'' then cs else s);
          z = takeWhile isDigit s'
      in if z = [] then None
         else Some (if negative then negate (toNumber (digitsValue z))
                    else toNumber (digitsValue z)))"

text \<open>A string or \<open>null\<close> in a condition: \<open>null\<close> and the empty string are falsy.\<close>

definition truthy :: "string option \<Rightarrow> bool" where
  "truthy v = (case v of None \<Rightarrow> False | Some str \<Rightarrow> str \<noteq> [])"

text \<open>The part of the mount effect that reads the link; the argument is
  \<open>params.get("seconds")\<close>.\<close>

definition readSecondsParam :: "string option \<Rightarrow> page \<Rightarrow> page" where
  "readSecondsParam secondsFromUrl s =
     (if truthy secondsFromUrl
      then (case Option.bind secondsFromUrl parseInt of
              None \<Rightarrow> s
            | Some parsed \<Rightarrow>
                if isPositive parsed
                then s\<lparr>durationLimitSeconds := Some parsed, hasDurationParam := True\<rparr>
                else s)
      else s\<lparr>hasDurationParam := False\<rparr>)"

text \<open>A row of \<open>call_config\<close> as selected by \<open>loadConfig\<close>, and what \<open>loadConfig\<close> does
  once the query has answered (\<open>None\<close>: no row for this host).\<close>

record call_config =
  video_url :: "string option"
  audio_url :: "string option"
  duration_seconds :: "int option"

definition loadConfig_resolved :: "call_config option \<Rightarrow> page \<Rightarrow> page" where
  "loadConfig_resolved data s =
     (case data of
        None \<Rightarrow> s
      | Some d \<Rightarrow>
          s\<lparr>configVideoUrl := video_url d, configAudioUrl := audio_url d,
            durationLimitSeconds :=
              (case durationLimitSeconds s of
                 Some prev \<Rightarrow> Some prev
               | None \<Rightarrow> map_option Number (duration_seconds d))\<rparr>)"

definition effectiveLimitSeconds :: "page \<Rightarrow> number" where
  "effectiveLimitSeconds s =
     (case durationLimitSeconds s of
        Some l \<Rightarrow> l
      | None \<Rightarrow> Number (CALL_DURATION_LIMIT_MINUTES * 60))"

text \<open>Several completed fetches, in the order they complete.\<close>

definition config_fetches :: "call_config option list \<Rightarrow> page \<Rightarrow> page" where
  "config_fetches ds s = foldl (\<lambda>s' d. loadConfig_resolved d s') s ds"

section \<open>The call session\<close>

text \<open>Timers of the browser.  \<open>setInterval\<close> registers a callback and returns a fresh
  identifier; the callback of the timer effect closes over the effective limit of the
  render that created it.  \<open>clearTimerRef\<close> is the guarded clearing that \<open>endCall\<close> and
  the effect's cleanup share: \<open>if (timerRef.current) { clearInterval(...); ... = null }\<close>,
  where the number 0 is falsy.\<close>

definition clearInterval :: "nat \<Rightarrow> page \<Rightarrow> page" where
  "clearInterval i s = s\<lparr>intervals := filter (\<lambda>iv. fst iv \<noteq> i) (intervals s)\<rparr>"

definition setInterval :: "number \<Rightarrow> page \<Rightarrow> nat \<times> page" where
  "setInterval effectiveLimit s =
     (nextTimerId s,
      s\<lparr>intervals := intervals s @ [(nextTimerId s, effectiveLimit)],
        nextTimerId := Suc (nextTimerId s)\<rparr>)"

definition clearTimerRef :: "page \<Rightarrow> page" where
  "clearTimerRef s =
     (case timerRef s of
        None \<Rightarrow> s
      | Some i \<Rightarrow> if i = 0 then s else (clearInterval i s)\<lparr>timerRef := None\<rparr>)"

definition stop :: "track \<Rightarrow> track" where
  "stop t = t\<lparr>live := False\<rparr>"

definition stopMediaTracks :: "page \<Rightarrow> page" where
  "stopMediaTracks s =
     (case selfStreamRef s of
        None \<Rightarrow> s
      | Some tracks \<Rightarrow> s\<lparr>stoppedTracks := stoppedTracks s @ map stop tracks, selfStreamRef := None\<rparr>)"

definition endCall :: "page \<Rightarrow> page" where
  "endCall s = clearTimerRef (stopMediaTracks (s\<lparr>inCall := False, duration := 0\<rparr>))"

text \<open>The callback given to \<open>setInterval\<close>: the updater of \<open>setDuration\<close> reads the
  previous value and returns \<open>prev + 1\<close> in both branches.  When the limit is reached it
  calls \<open>endCall()\<close> first: the tracks are stopped and the interval cleared at once, and
  the \<open>setInCall(false)\<close> and \<open>setDuration(0)\<close> that \<open>endCall\<close> issues from inside the
  updater are applied after the updater's result, so the page ends the tick with 0
  elapsed seconds.\<close>

definition tick_callback :: "number \<Rightarrow> page \<Rightarrow> page" where
  "tick_callback effectiveLimit s =
     (let prev = duration s
      in if atLeast_number (prev + 1) effectiveLimit then endCall (s\<lparr>duration := prev + 1\<rparr>)
         else s\<lparr>duration := prev + 1\<rparr>)"

text \<open>The timer effect, with dependencies \<open>[inCall, durationLimitSeconds]\<close>.  \<open>commit\<close>
  is what React does after a render: when a dependency differs from its value at the
  effect's last run, the cleanup that run returned (it returned one only when \<open>inCall\<close>
  held) is executed, then the effect body.\<close>

definition timer_effect_body :: "page \<Rightarrow> page" where
  "timer_effect_body s =
     (if \<not> inCall s then s
      else (case setInterval (effectiveLimitSeconds s) s of (i, s') \<Rightarrow> s'\<lparr>timerRef := Some i\<rparr>))"

definition commit :: "page \<Rightarrow> page" where
  "commit s =
     (let deps = (inCall s, durationLimitSeconds s)
      in case timerEffectDeps s of
           None \<Rightarrow> (timer_effect_body s)\<lparr>timerEffectDeps := Some deps\<rparr>
         | Some old \<Rightarrow>
             if old = deps then s
             else (timer_effect_body (if fst old then clearTimerRef s else s))
                    \<lparr>timerEffectDeps := Some deps\<rparr>)"

text \<open>One second passes: every interval registered at that moment fires, unless it was
  cleared in the meantime, and the component re-renders.\<close>

definition fire_interval :: "nat \<times> number \<Rightarrow> page \<Rightarrow> page" where
  "fire_interval iv s = (if iv \<in> set (intervals s) then tick_callback (snd iv) s else s)"

definition second_elapses :: "page \<Rightarrow> page" where
  "second_elapses s = commit (foldl (\<lambda>s' iv. fire_interval iv s') s (intervals s))"

text \<open>The fixed message of \<open>requestMedia\<close>, in UTF-8.\<close>

definition humanMessage :: string where
  "humanMessage =
     ''N'' @ [CHR 0xC3, CHR 0xA3] @ ''o foi poss'' @ [CHR 0xC3, CHR 0xAD]
     @ ''vel acessar sua c'' @ [CHR 0xC3, CHR 0xA2]
     @ ''mera ou microfone. Verifique as permiss'' @ [CHR 0xC3, CHR 0xB5]
     @ ''es do navegador.''"

text \<open>\<open>requestMedia\<close> and \<open>startCall\<close>.  The argument \<open>media\<close> is the answer of
  \<open>getUserMedia\<close>: the captured stream, or \<open>None\<close> when the request is rejected (the
  \<open>catch\<close> branch).  \<open>requestMedia\<close> returns its boolean together with the page.  The
  toast, the console message and the binding of the preview element are not part of the
  state.\<close>

definition requestMedia :: "track list option \<Rightarrow> page \<Rightarrow> bool \<times> page" where
  "requestMedia media s =
     (let s1 = s\<lparr>permissionError := None\<rparr>
      in case media of
           Some stream \<Rightarrow> (True, s1\<lparr>selfStreamRef := Some stream\<rparr>)
         | None \<Rightarrow> (False, s1\<lparr>permissionError := Some humanMessage\<rparr>))"

definition startCall :: "track list option \<Rightarrow> page \<Rightarrow> page" where
  "startCall media s =
     (case requestMedia media (s\<lparr>connecting := True\<rparr>) of
        (ok, s') \<Rightarrow>
          if \<not> ok then s'\<lparr>connecting := False\<rparr>
          else s'\<lparr>duration := 0, inCall := True, connecting := False\<rparr>)"

text \<open>The effect that starts the call when the link has a \<open>seconds\<close> parameter.\<close>

definition autostart_effect :: "string option \<Rightarrow> track list option \<Rightarrow> page \<Rightarrow> page" where
  "autostart_effect secondsParam media s = (if truthy secondsParam then startCall media s else s)"

text \<open>Loading the page with a link: the effects of the first render run (the timer
  effect for the first time), the state they set is rendered, and the request for the
  camera and microphone answers.\<close>

definition mount :: "string option \<Rightarrow> track list option \<Rightarrow> page" where
  "mount secondsParam media =
     commit (autostart_effect secondsParam media
               (commit (readSecondsParam secondsParam (commit initial_page))))"

text \<open>The toggles of the in-call controls.\<close>

definition setEnabled :: "TrackKind \<Rightarrow> bool \<Rightarrow> track list \<Rightarrow> track list" where
  "setEnabled k b ts = map (\<lambda>t. if kind t = k then t\<lparr>enabled := b\<rparr> else t) ts"

definition toggleMic :: "page \<Rightarrow> page" where
  "toggleMic s =
     (let next = \<not> micOn (mediaState s);
          s' = s\<lparr>mediaState := (mediaState s)\<lparr>micOn := next\<rparr>\<rparr>
      in case selfStreamRef s' of
           None \<Rightarrow> s'
         | Some ts \<Rightarrow> s'\<lparr>selfStreamRef := Some (setEnabled AudioTrack next ts)\<rparr>)"

definition toggleCam :: "page \<Rightarrow> page" where
  "toggleCam s =
     (let next = \<not> camOn (mediaState s);
          s' = s\<lparr>mediaState := (mediaState s)\<lparr>camOn := next\<rparr>\<rparr>
      in case selfStreamRef s' of
           None \<Rightarrow> s'
         | Some ts \<Rightarrow> s'\<lparr>selfStreamRef := Some (setEnabled VideoTrack next ts)\<rparr>)"

text \<open>A freshly captured stream: one audio and one video track, enabled and live.\<close>

definition fresh_stream :: "track list" where
  "fresh_stream =
     [\<lparr>kind = AudioTrack, enabled = True, live = True\<rparr>,
      \<lparr>kind = VideoTrack, enabled = True, live = True\<rparr>]"

section \<open>Notions used to state the properties\<close>

text \<open>The resolution of the limit in the words of the specification.  The value of the
  link is a valid positive integer when it is a positive integer string: a non-empty run
  of decimal digits whose value, read from the units upwards, is positive.  The limit is
  that value; otherwise the duration of the first completed fetch that supplies one;
  otherwise 1800.\<close>

fun valueFromUnits :: "string \<Rightarrow> nat" where
  "valueFromUnits [] = 0"
| "valueFromUnits (c # cs) = digitValue c + 10 * valueFromUnits cs"

definition positive_integer_string :: "string \<Rightarrow> nat option" where
  "positive_integer_string str =
     (if str \<noteq> [] \<and> list_all isDigit str \<and> 0 < valueFromUnits (rev str)
      then Some (valueFromUnits (rev str)) else None)"

definition link_seconds :: "string option \<Rightarrow> int option" where
  "link_seconds q =
     (case q of None \<Rightarrow> None | Some str \<Rightarrow> map_option int (positive_integer_string str))"

fun first_config_duration :: "call_config option list \<Rightarrow> int option" where
  "first_config_duration [] = None"
| "first_config_duration (None # ds) = first_config_duration ds"
| "first_config_duration (Some d # ds) =
     (case duration_seconds d of Some n \<Rightarrow> Some n | None \<Rightarrow> first_config_duration ds)"

definition spec_resolved_limit :: "string option \<Rightarrow> call_config option list \<Rightarrow> number" where
  "spec_resolved_limit q ds =
     (case link_seconds q of
        Some n \<Rightarrow> Number n
      | None \<Rightarrow> (case first_config_duration ds of Some n \<Rightarrow> Number n | None \<Rightarrow> Number 1800))"

text \<open>The resolution as the code makes it, described on its own: the link counts by the
  integer it begins with.  After the leading white space and one optional sign, the
  digits are read one by one as long as there are digits; what follows is not looked at;
  the integer is rounded to a double.  The link supplies the limit when that number is
  positive.\<close>

fun scan_digits :: "nat \<Rightarrow> string \<Rightarrow> nat" where
  "scan_digits acc [] = acc"
| "scan_digits acc (c # cs) = (if isDigit c then scan_digits (10 * acc + digitValue c) cs else acc)"

definition read_unsigned :: "string \<Rightarrow> number option" where
  "read_unsigned s =
     (case s of
        [] \<Rightarrow> None
      | c # cs \<Rightarrow> if isDigit c then Some (toNumber (scan_digits (digitValue c) cs)) else None)"

definition leading_integer :: "string \<Rightarrow> number option" where
  "leading_integer str =
     (case trimStart str of
        [] \<Rightarrow> None
      | c # cs \<Rightarrow>
          if c = CHR ''-'' then map_option negate (read_unsigned cs)
          else if c = CHR ''+'' then read_unsigned cs
          else read_unsigned (c # cs))"

definition leading_seconds :: "string option \<Rightarrow> number option" where
  "leading_seconds q =
     (case q of
        None \<Rightarrow> None
      | Some str \<Rightarrow>
          (case leading_integer str of
             None \<Rightarrow> None
           | Some n \<Rightarrow> if isPositive n then Some n else None))"

definition lenient_resolved_limit :: "string option \<Rightarrow> call_config option list \<Rightarrow> number" where
  "lenient_resolved_limit q ds =
     (case leading_seconds q of
        Some n \<Rightarrow> n
      | None \<Rightarrow> (case first_config_duration ds of Some n \<Rightarrow> Number n | None \<Rightarrow> Number 1800))"

text \<open>The state between two events, once React has run the timer effect: the effect has
  seen the current dependencies, and an interval is registered exactly while the call is
  on, held by \<open>timerRef\<close> and closed over the current effective limit.\<close>

definition settled :: "page \<Rightarrow> bool" where
  "settled s =
     (timerEffectDeps s = Some (inCall s, durationLimitSeconds s) \<and> nextTimerId s \<noteq> 0
      \<and> (case timerRef s of
            None \<Rightarrow> \<not> inCall s \<and> intervals s = []
          | Some i \<Rightarrow> inCall s \<and> i \<noteq> 0 \<and> intervals s = [(i, effectiveLimitSeconds s)]))"

text \<open>The page \<open>k\<close> seconds after a call was started with a captured stream, and the page
  after a start whose capture request was rejected.\<close>

definition call_after :: "nat \<Rightarrow> track list \<Rightarrow> page \<Rightarrow> page" where
  "call_after k stream s = (second_elapses ^^ k) (commit (startCall (Some stream) s))"

definition failed_start :: "page \<Rightarrow> page" where
  "failed_start s = commit (startCall None s)"

text \<open>Every captured audio track has the \<open>enabled\<close> value that the flag \<open>micOn\<close> shows.\<close>

definition mic_in_sync :: "page \<Rightarrow> bool" where
  "mic_in_sync s =
     (case selfStreamRef s of
        None \<Rightarrow> True
      | Some ts \<Rightarrow> list_all (\<lambda>t. kind t \<noteq> AudioTrack \<or> enabled t = micOn (mediaState s)) ts)"

text \<open>The pages the component can be in.  \<open>startCall\<close> has one call site, the effect that
  runs when the page is loaded, and \<open>getUserMedia\<close> delivers its tracks enabled; after
  that the page changes by the toggles, the hang-up, the seconds that pass, a completed
  configuration fetch, and the events of the chat.  The toggles and the hang-up are
  taken as they are, also where their buttons are not on the page.\<close>

definition delivered_enabled :: "track list option \<Rightarrow> bool" where
  "delivered_enabled media = (case media of None \<Rightarrow> True | Some ts \<Rightarrow> list_all enabled ts)"

inductive reach :: "page \<Rightarrow> bool" where
  reach_mount: "delivered_enabled media \<Longrightarrow> reach (mount q media)"
| reach_toggleMic: "reach s \<Longrightarrow> reach (commit (toggleMic s))"
| reach_toggleCam: "reach s \<Longrightarrow> reach (commit (toggleCam s))"
| reach_endCall: "reach s \<Longrightarrow> reach (commit (endCall s))"
| reach_second: "reach s \<Longrightarrow> reach (second_elapses s)"
| reach_config: "reach s \<Longrightarrow> reach (commit (loadConfig_resolved d s))"
| reach_package: "reach s \<Longrightarrow> reach (click_package pkg s)"
| reach_channel: "reach s \<Longrightarrow> reach (click_channel c s)"
| reach_input: "reach s \<Longrightarrow> reach (input_onChange v s)"
| reach_continue: "reach s \<Longrightarrow> reach (click_continue s)"
| reach_back: "reach s \<Longrightarrow> reach (click_back s)"
| reach_generate: "reach s \<Longrightarrow> reach (click_generate origin s)"
| reach_createAnother: "reach s \<Longrightarrow> reach (click_createAnother s)"
| reach_typing: "reach s \<Longrightarrow> reach (typing_effect s)"
| reach_timeout: "reach s \<Longrightarrow> reach (typing_timeout s)"

text \<open>Example pages: a page opened with \<open>?seconds=3\<close> before the call starts, and a call
  in progress.\<close>

definition link3_page :: page where
  "link3_page = commit (readSecondsParam (Some ''3'') (commit initial_page))"

definition call_page :: page where
  "call_page = mount (Some ''600'') (Some fresh_stream)"

section \<open>Properties of the chat flow\<close>

lemmas chat_defs = chat_rendered_def back_rendered_def click_package_def selectPackage_onClick_def
  typing_effect_def typing_timeout_def click_channel_def input_onChange_def contact_rendered_def
  continue_disabled_def continue_onClick_def click_continue_def PACKAGES_def

lemma trimStart_example: "trimStart ''a@b.com'' = ''a@b.com''"
  by code_simp

lemma toString_600: "toString 600 = ''600''"
  by code_simp

lemma toString_1200: "toString 1200 = ''1200''"
  by code_simp

lemma example_summary_page_eq:
  "example_summary_page =
     initial_page\<lparr>chatStep := Summary, selectedPackage := Some p10,
                   contactChannel := Some Email, contactValue := ''a@b.com''\<rparr>"
  by (simp add: example_summary_page_def initial_page_def chat_defs trimStart_example)

lemma handoff_url_p10: "handoff_url origin p10 = origin @ ''/?seconds=600''"
  by (simp add: handoff_url_def p10_def toString_600)

text \<open>
  C9.  After the example walk (10-minute package, e-mail, \<open>a@b.com\<close>, up to the summary),
  the generate button opens exactly \<open>origin/?seconds=600\<close> with target \<open>_blank\<close> and moves
  the chat to \<open>finished\<close>.  In general, whenever the button is on the page with package
  \<open>pkg\<close> selected, it opens \<open>origin/?seconds=\<close> followed by \<open>minutes pkg * 60\<close> in decimal,
  and changes nothing else but the step.
\<close>

theorem generate_handoff_link:
  "click_generate origin example_summary_page =
     example_summary_page\<lparr>windowsOpened := [(origin @ ''/?seconds=600'', ''_blank'')],
                            chatStep := Finished\<rparr>
   \<and> (\<forall>s pkg. chat_rendered s \<and> chatStep s = Summary \<and> selectedPackage s = Some pkg \<longrightarrow>
         click_generate origin s =
           s\<lparr>windowsOpened := windowsOpened s
                  @ [(origin @ ''/?seconds='' @ toString (minutes pkg * 60), ''_blank'')],
             chatStep := Finished\<rparr>)"
proof
  have "chat_rendered example_summary_page" "chatStep example_summary_page = Summary"
    "selectedPackage example_summary_page = Some p10" "windowsOpened example_summary_page = []"
    by (simp_all add: example_summary_page_eq initial_page_def chat_rendered_def)
  then show "click_generate origin example_summary_page =
     example_summary_page\<lparr>windowsOpened := [(origin @ ''/?seconds=600'', ''_blank'')],
                            chatStep := Finished\<rparr>"
    by (simp add: click_generate_def generate_rendered_def generate_onClick_def handoff_url_p10)
next
  show "\<forall>s pkg. chat_rendered s \<and> chatStep s = Summary \<and> selectedPackage s = Some pkg \<longrightarrow>
         click_generate origin s =
           s\<lparr>windowsOpened := windowsOpened s
                  @ [(origin @ ''/?seconds='' @ toString (minutes pkg * 60), ''_blank'')],
             chatStep := Finished\<rparr>"
    by (simp add: click_generate_def generate_rendered_def generate_onClick_def handoff_url_def)
qed

theorem generate_handoff_link_witness:
  "chat_rendered (initial_page\<lparr>chatStep := Summary, selectedPackage := Some p20\<rparr>)
   \<and> windowsOpened (click_generate ''https://sala.example''
                       (initial_page\<lparr>chatStep := Summary, selectedPackage := Some p20\<rparr>))
       = [(''https://sala.example/?seconds=1200'', ''_blank'')]
   \<and> chatStep (click_generate ''https://sala.example''
                  (initial_page\<lparr>chatStep := Summary, selectedPackage := Some p20\<rparr>))
       = Finished"
proof -
  let ?s = "initial_page\<lparr>chatStep := Summary, selectedPackage := Some p20\<rparr>"
  have h: "chat_rendered ?s \<and> chatStep ?s = Summary \<and> selectedPackage ?s = Some p20"
    by (simp add: initial_page_def chat_rendered_def)
  from generate_handoff_link [of "''https://sala.example''"] h
  have "click_generate ''https://sala.example'' ?s =
           ?s\<lparr>windowsOpened := windowsOpened ?s
                  @ [(''https://sala.example'' @ ''/?seconds='' @ toString (minutes p20 * 60),
                      ''_blank'')],
             chatStep := Finished\<rparr>"
    by blast
  then show ?thesis using h by (simp add: initial_page_def p20_def toString_1200)
qed

text \<open>
  C10.  With the chat on the page: Back in the step \<open>contact\<close> returns to \<open>minutes\<close> and
  resets the package, the channel and the contact value; Back in \<open>summary\<close> or
  \<open>summary_typing\<close> changes the step to \<open>contact\<close> and nothing else.
\<close>

theorem back_resets_only_from_contact:
  "(chat_rendered s \<and> chatStep s = Contact \<longrightarrow>
      click_back s = s\<lparr>chatStep := Minutes, selectedPackage := None,
                        contactChannel := None, contactValue := []\<rparr>)
   \<and> (chat_rendered s \<and> (chatStep s = Summary \<or> chatStep s = SummaryTyping) \<longrightarrow>
      click_back s = s\<lparr>chatStep := Contact\<rparr>)"
  by (simp add: click_back_def back_rendered_def back_onClick_def)

theorem back_resets_only_from_contact_witness:
  "chat_rendered example_summary_page \<and> chatStep example_summary_page = Summary
   \<and> click_back example_summary_page = example_summary_page\<lparr>chatStep := Contact\<rparr>
   \<and> selectedPackage (click_back example_summary_page) = Some p10
   \<and> chat_rendered (click_back example_summary_page)
   \<and> chatStep (click_back example_summary_page) = Contact
   \<and> selectedPackage (click_back (click_back example_summary_page)) = None
   \<and> contactChannel (click_back (click_back example_summary_page)) = None
   \<and> contactValue (click_back (click_back example_summary_page)) = []
   \<and> chatStep (click_back (click_back example_summary_page)) = Minutes"
proof -
  have h1: "chat_rendered example_summary_page \<and> chatStep example_summary_page = Summary"
    by (simp add: example_summary_page_eq initial_page_def chat_rendered_def)
  have b1: "click_back example_summary_page = example_summary_page\<lparr>chatStep := Contact\<rparr>"
    using back_resets_only_from_contact [of example_summary_page] h1 by blast
  have h2: "chat_rendered (example_summary_page\<lparr>chatStep := Contact\<rparr>)
            \<and> chatStep (example_summary_page\<lparr>chatStep := Contact\<rparr>) = Contact"
    using h1 by (simp add: chat_rendered_def)
  have b2: "click_back (example_summary_page\<lparr>chatStep := Contact\<rparr>) =
              example_summary_page\<lparr>chatStep := Contact, chatStep := Minutes, selectedPackage := None,
                                     contactChannel := None, contactValue := []\<rparr>"
    using back_resets_only_from_contact [of "example_summary_page\<lparr>chatStep := Contact\<rparr>"] h2
    by simp
  show ?thesis
    using h1 h2 by (simp add: b1 b2) (simp add: example_summary_page_eq)
qed

section \<open>Properties of the duration limit\<close>

lemmas parse_defs = parseInt_def trimStart_def whiteSpaceLength_def whiteSpaceCodes_def
  isDigit_def digitValue_def digitsValue_def toNumber_def negate_def

lemma parseInt_empty: "parseInt [] = None"
  by (simp add: parseInt_def trimStart_def)

lemma parseInt_3: "parseInt ''3'' = Some (Number 3)"
  by (simp add: parse_defs)

lemma parseInt_600: "parseInt ''600'' = Some (Number 600)"
  by (simp add: parse_defs)

lemma parseInt_abc: "parseInt ''abc'' = None"
  by (simp add: parse_defs)

lemma parseInt_0: "parseInt ''0'' = Some (Number 0)"
  by (simp add: parse_defs)

lemma parseInt_12abc: "parseInt ''12abc'' = Some (Number 12)"
  by (simp add: parse_defs)

lemma bitLength_example: "bitLength 9007199254740993 = 54"
  by (simp add: bitLength.simps)

lemma parseInt_rounded: "parseInt ''9007199254740993'' = Some (Number 9007199254740992)"
  by (simp add: parse_defs bitLength_example)

lemma scan_digits_foldl:
  "scan_digits acc s = foldl (\<lambda>a c. 10 * a + digitValue c) acc (takeWhile isDigit s)"
  by (induction s arbitrary: acc) simp_all

lemma read_unsigned_eq:
  "read_unsigned s =
     (if takeWhile isDigit s = [] then None
      else Some (toNumber (digitsValue (takeWhile isDigit s))))"
  by (cases s) (simp_all add: read_unsigned_def digitsValue_def scan_digits_foldl)

lemma parseInt_leading_integer: "parseInt str = leading_integer str"
proof (cases "trimStart str")
  case Nil
  then show ?thesis by (simp add: parseInt_def leading_integer_def)
next
  case (Cons c cs)
  then show ?thesis
    by (simp add: parseInt_def leading_integer_def Let_def read_unsigned_eq)
qed

lemma readSecondsParam_limit:
  "durationLimitSeconds (readSecondsParam q initial_page) = leading_seconds q"
proof (cases q)
  case None
  then show ?thesis
    by (simp add: readSecondsParam_def leading_seconds_def truthy_def initial_page_def)
next
  case (Some str)
  show ?thesis
  proof (cases "str = []")
    case True
    then show ?thesis using Some
      by (simp add: readSecondsParam_def leading_seconds_def truthy_def initial_page_def
            leading_integer_def trimStart_def)
  next
    case False
    then show ?thesis using Some
      by (simp add: readSecondsParam_def leading_seconds_def truthy_def initial_page_def
            parseInt_leading_integer split: option.splits)
  qed
qed

lemma config_fetches_resolved:
  "durationLimitSeconds s = Some l \<Longrightarrow> durationLimitSeconds (config_fetches ds s) = Some l"
proof (induction ds arbitrary: s)
  case Nil
  then show ?case by (simp add: config_fetches_def)
next
  case (Cons d ds)
  have "durationLimitSeconds (loadConfig_resolved d s) = Some l"
    using Cons.prems by (simp add: loadConfig_resolved_def split: option.splits)
  then have "durationLimitSeconds (config_fetches ds (loadConfig_resolved d s)) = Some l"
    by (rule Cons.IH)
  then show ?case by (simp add: config_fetches_def)
qed

lemma config_fetches_unset:
  "durationLimitSeconds s = None \<Longrightarrow>
     durationLimitSeconds (config_fetches ds s) = map_option Number (first_config_duration ds)"
proof (induction ds arbitrary: s rule: first_config_duration.induct)
  case 1
  then show ?case by (simp add: config_fetches_def)
next
  case (2 ds)
  have "loadConfig_resolved None s = s" by (simp add: loadConfig_resolved_def)
  then have "config_fetches (None # ds) s = config_fetches ds s" by (simp add: config_fetches_def)
  then show ?case using 2 by simp
next
  case (3 d ds)
  have step: "config_fetches (Some d # ds) s = config_fetches ds (loadConfig_resolved (Some d) s)"
    by (simp add: config_fetches_def)
  have lim: "durationLimitSeconds (loadConfig_resolved (Some d) s)
               = map_option Number (duration_seconds d)"
    using "3.prems" by (simp add: loadConfig_resolved_def)
  show ?case
  proof (cases "duration_seconds d")
    case None
    then show ?thesis using "3.IH"[of "loadConfig_resolved (Some d) s"] lim step by simp
  next
    case (Some n)
    then show ?thesis
      using config_fetches_resolved[of "loadConfig_resolved (Some d) s" "Number n" ds] lim step
      by simp
  qed
qed

lemma resolved_lenient:
  "effectiveLimitSeconds (config_fetches ds (readSecondsParam q initial_page))
     = lenient_resolved_limit q ds"
proof (cases "leading_seconds q")
  case None
  then have "durationLimitSeconds (config_fetches ds (readSecondsParam q initial_page))
               = map_option Number (first_config_duration ds)"
    by (simp add: config_fetches_unset readSecondsParam_limit)
  then show ?thesis using None
    by (simp add: effectiveLimitSeconds_def lenient_resolved_limit_def
          CALL_DURATION_LIMIT_MINUTES_def split: option.splits)
next
  case (Some n)
  then have "durationLimitSeconds (config_fetches ds (readSecondsParam q initial_page)) = Some n"
    by (simp add: config_fetches_resolved readSecondsParam_limit)
  then show ?thesis using Some
    by (simp add: effectiveLimitSeconds_def lenient_resolved_limit_def)
qed

lemma whiteSpaceCodes_heads:
  "list_all (\<lambda>w. case w of [] \<Rightarrow> False | b # _ \<Rightarrow> \<not> isDigit b) whiteSpaceCodes"
  by (simp add: whiteSpaceCodes_def isDigit_def)

lemma whiteSpaceCodes_first:
  "w \<in> set whiteSpaceCodes \<Longrightarrow> \<exists>b bs. w = b # bs \<and> \<not> isDigit b"
  using whiteSpaceCodes_heads unfolding list_all_iff
  by (cases w) auto

lemma whiteSpaceLength_digit:
  assumes "isDigit c"
  shows "whiteSpaceLength (c # cs) = 0"
proof -
  have "\<not> (\<exists>w \<in> set whiteSpaceCodes. take (length w) (c # cs) = w)"
  proof
    assume "\<exists>w \<in> set whiteSpaceCodes. take (length w) (c # cs) = w"
    then obtain w where w: "w \<in> set whiteSpaceCodes" "take (length w) (c # cs) = w" by blast
    from whiteSpaceCodes_first[OF w(1)] obtain b bs where b: "w = b # bs" "\<not> isDigit b" by blast
    from w(2) b(1) have "c = b" by simp
    with assms b(2) show False by simp
  qed
  then have "List.find (\<lambda>w. take (length w) (c # cs) = w) whiteSpaceCodes = None"
    by (simp add: find_None_iff)
  then show ?thesis by (simp add: whiteSpaceLength_def)
qed

lemma trimStart_digit: "isDigit c \<Longrightarrow> trimStart (c # cs) = c # cs"
  by (simp add: trimStart_def whiteSpaceLength_digit)

lemma isDigit_not_sign: "isDigit c \<Longrightarrow> c \<noteq> CHR ''-'' \<and> c \<noteq> CHR ''+''"
  by (auto simp add: isDigit_def)

lemma valueFromUnits_append:
  "valueFromUnits (xs @ ys) = valueFromUnits xs + 10 ^ length xs * valueFromUnits ys"
  by (induction xs) (simp_all add: algebra_simps)

lemma foldl_digits:
  "foldl (\<lambda>a c. 10 * a + digitValue c) acc s = acc * 10 ^ length s + valueFromUnits (rev s)"
  by (induction s arbitrary: acc) (simp_all add: valueFromUnits_append algebra_simps)

lemma digitsValue_units: "digitsValue s = valueFromUnits (rev s)"
  by (simp add: digitsValue_def foldl_digits)

lemma bitLength_lower: "n \<noteq> 0 \<Longrightarrow> 2 ^ (bitLength n - 1) \<le> n"
proof (induction n rule: bitLength.induct)
  case (1 n)
  show ?case
  proof (cases "n div 2 = 0")
    case True
    then have "bitLength n = Suc 0" using "1.prems" by (simp add: bitLength.simps)
    then show ?thesis using "1.prems" by simp
  next
    case False
    then have ih: "2 ^ (bitLength (n div 2) - 1) \<le> n div 2" using "1.IH" "1.prems" by simp
    have pos: "bitLength (n div 2) \<noteq> 0" using False by (simp add: bitLength.simps)
    have "bitLength n - 1 = Suc (bitLength (n div 2) - 1)"
      using "1.prems" pos by (simp add: bitLength.simps[of n])
    then have "(2::nat) ^ (bitLength n - 1) = 2 * 2 ^ (bitLength (n div 2) - 1)" by simp
    also have "\<dots> \<le> 2 * (n div 2)" using ih by simp
    also have "\<dots> \<le> n" by simp
    finally show ?thesis .
  qed
qed

lemma toNumber_positive: "0 < n \<Longrightarrow> isPositive (toNumber n)"
proof (cases "n < 2 ^ 53")
  case True
  assume "0 < n"
  then show ?thesis using True by (simp add: toNumber_def isPositive_def)
next
  case False
  assume n: "0 < n"
  define e where "e = bitLength n - 53"
  have "(2::nat) ^ e \<le> 2 ^ (bitLength n - 1)" unfolding e_def by (rule power_increasing) simp_all
  also have "\<dots> \<le> n" using bitLength_lower[of n] n by simp
  finally have "2 ^ e \<le> n" .
  then have q: "0 < n div 2 ^ e" by (simp add: div_greater_zero_iff)
  show ?thesis
    using False q unfolding toNumber_def e_def [symmetric]
    by (simp add: isPositive_def Let_def)
qed

lemma parseInt_integer_string:
  assumes "positive_integer_string str = Some n"
  shows "parseInt str = Some (toNumber n)" "isPositive (toNumber n)" "str \<noteq> []"
proof -
  from assms have s: "str \<noteq> []" "list_all isDigit str" "0 < n" "n = valueFromUnits (rev str)"
    by (auto simp add: positive_integer_string_def split: if_splits)
  then obtain c cs where c: "str = c # cs" "isDigit c" by (cases str) auto
  have t: "trimStart str = c # cs" using c by (simp add: trimStart_digit)
  have z: "takeWhile isDigit cs = cs"
    using s(2) c(1) by (simp add: list_all_iff)
  have "parseInt str = Some (toNumber (digitsValue (c # cs)))"
    using t c(2) isDigit_not_sign[OF c(2)]
    by (simp add: parseInt_def Let_def z)
  then show "parseInt str = Some (toNumber n)"
    using s(4) c(1) by (simp only: digitsValue_units)
  show "isPositive (toNumber n)" using s(3) by (rule toNumber_positive)
  show "str \<noteq> []" by (rule s(1))
qed

lemma resolved_integer_string:
  assumes "positive_integer_string str = Some n"
  shows "effectiveLimitSeconds (config_fetches ds (readSecondsParam (Some str) initial_page))
           = toNumber n"
proof -
  note p = parseInt_integer_string[OF assms]
  have "durationLimitSeconds (readSecondsParam (Some str) initial_page) = Some (toNumber n)"
    using p by (simp add: readSecondsParam_def truthy_def)
  then have "durationLimitSeconds (config_fetches ds (readSecondsParam (Some str) initial_page))
               = Some (toNumber n)"
    by (rule config_fetches_resolved)
  then show ?thesis by (simp add: effectiveLimitSeconds_def)
qed

text \<open>
  C1, as the claim states it, fails on the link \<open>?seconds=12abc\<close>: the value is not a
  positive integer string, so the claim resolves the default 1800 when no configuration
  arrives, and the code resolves 12 and enters the direct call mode.  On
  \<open>?seconds=9007199254740993\<close> the claim resolves the value of the link and the code the
  double next to it.
\<close>

theorem resolved_duration_limit_counterexample:
  "spec_resolved_limit (Some ''12abc'') [] = Number 1800
   \<and> effectiveLimitSeconds (config_fetches [] (readSecondsParam (Some ''12abc'') initial_page))
       = Number 12
   \<and> hasDurationParam (readSecondsParam (Some ''12abc'') initial_page)
   \<and> spec_resolved_limit (Some ''9007199254740993'') [] = Number 9007199254740993
   \<and> effectiveLimitSeconds
         (config_fetches [] (readSecondsParam (Some ''9007199254740993'') initial_page))
       = Number 9007199254740992"
proof -
  have a: "spec_resolved_limit (Some ''12abc'') [] = Number 1800"
    by (simp add: spec_resolved_limit_def link_seconds_def positive_integer_string_def
          isDigit_def)
  have b: "effectiveLimitSeconds (config_fetches [] (readSecondsParam (Some ''12abc'') initial_page))
             = Number 12"
    "hasDurationParam (readSecondsParam (Some ''12abc'') initial_page)"
    by (simp_all add: config_fetches_def readSecondsParam_def truthy_def parseInt_12abc
          isPositive_def effectiveLimitSeconds_def)
  have c: "spec_resolved_limit (Some ''9007199254740993'') [] = Number 9007199254740993"
    by (simp add: spec_resolved_limit_def link_seconds_def positive_integer_string_def
          isDigit_def digitValue_def)
  have d: "effectiveLimitSeconds
             (config_fetches [] (readSecondsParam (Some ''9007199254740993'') initial_page))
           = Number 9007199254740992"
    by (simp add: config_fetches_def readSecondsParam_def truthy_def parseInt_rounded
          isPositive_def effectiveLimitSeconds_def)
  show ?thesis using a b c d by simp
qed

text \<open>
  C1, amended.  After the link has been read and any number of configuration fetches
  have completed, the effective limit is the number the link's value begins with (white
  space and one sign skipped, the longest run of digits read, the rest ignored, rounded
  to a double) when that number is positive; else the duration of the first fetch that
  supplies one; else 1800.  For a link whose value is a positive integer string the limit
  is that integer as a double, whatever the fetches bring, hence the integer itself below
  \<open>2^53\<close>.  A fetch that completes when the limit is already set leaves it as it is.
\<close>

theorem resolved_duration_limit:
  "effectiveLimitSeconds (config_fetches ds (readSecondsParam q initial_page))
     = lenient_resolved_limit q ds
   \<and> (positive_integer_string str = Some n \<longrightarrow>
        effectiveLimitSeconds (config_fetches ds (readSecondsParam (Some str) initial_page))
          = toNumber n)
   \<and> (n < 2 ^ 53 \<longrightarrow> toNumber n = Number (int n))
   \<and> durationLimitSeconds (loadConfig_resolved d (s\<lparr>durationLimitSeconds := Some l\<rparr>)) = Some l"
proof -
  have "durationLimitSeconds (loadConfig_resolved d (s\<lparr>durationLimitSeconds := Some l\<rparr>)) = Some l"
    by (simp add: loadConfig_resolved_def split: option.splits)
  moreover have "n < 2 ^ 53 \<longrightarrow> toNumber n = Number (int n)"
    by (simp add: toNumber_def)
  ultimately show ?thesis
    using resolved_lenient[of ds q] resolved_integer_string[of str n ds] by blast
qed

theorem resolved_duration_limit_witness:
  "positive_integer_string ''600'' = Some 600 \<and> (600::nat) < 2 ^ 53
   \<and> effectiveLimitSeconds
         (config_fetches [Some \<lparr>video_url = None, audio_url = None, duration_seconds = Some 900\<rparr>]
            (readSecondsParam (Some ''600'') initial_page))
       = Number 600"
proof -
  have h: "positive_integer_string ''600'' = Some 600"
    by (simp add: positive_integer_string_def isDigit_def digitValue_def)
  have b: "(600::nat) < 2 ^ 53" by simp
  note t = resolved_duration_limit
    [of "[Some \<lparr>video_url = None, audio_url = None, duration_seconds = Some 900\<rparr>]"
        "Some ''600''" "''600''" 600]
  have "toNumber 600 = Number (int 600)"
    using t [THEN conjunct2, THEN conjunct2, THEN conjunct1] b by blast
  moreover have "effectiveLimitSeconds
         (config_fetches [Some \<lparr>video_url = None, audio_url = None, duration_seconds = Some 900\<rparr>]
            (readSecondsParam (Some ''600'') initial_page))
       = toNumber 600"
    using t [THEN conjunct2, THEN conjunct1] h by blast
  ultimately show ?thesis using h b by simp
qed

lemma link_seconds_abc: "link_seconds (Some ''abc'') = None"
  by (simp add: link_seconds_def positive_integer_string_def isDigit_def)

lemma link_seconds_0: "link_seconds (Some ''0'') = None"
  by (simp add: link_seconds_def positive_integer_string_def isDigit_def digitValue_def)

lemmas timer_defs = commit_def timer_effect_body_def setInterval_def clearTimerRef_def
  clearInterval_def effectiveLimitSeconds_def

lemmas start_defs = autostart_effect_def startCall_def requestMedia_def Let_def

text \<open>
  C2.  The link \<open>?seconds=abc\<close>: the value does not parse, the flag \<open>hasDurationParam\<close>
  stays false, and yet the auto-start effect, which only tests that the parameter is a
  non-empty string, calls \<open>startCall\<close>.  With the capture granted the call is on, and
  neither the chat nor the call room is rendered.  The same happens with \<open>?seconds=0\<close>.
  Without the parameter no call starts and the chat is rendered.
\<close>

theorem autostart_on_malformed_seconds:
  "link_seconds (Some ''abc'') = None
   \<and> \<not> hasDurationParam (mount (Some ''abc'') (Some fresh_stream))
   \<and> autostart_effect (Some ''abc'') (Some fresh_stream) initial_page
       = startCall (Some fresh_stream) initial_page
   \<and> inCall (mount (Some ''abc'') (Some fresh_stream))
   \<and> selfStreamRef (mount (Some ''abc'') (Some fresh_stream)) = Some fresh_stream
   \<and> \<not> chat_rendered (mount (Some ''abc'') (Some fresh_stream))
   \<and> \<not> room_rendered (mount (Some ''abc'') (Some fresh_stream))
   \<and> link_seconds (Some ''0'') = None
   \<and> \<not> hasDurationParam (mount (Some ''0'') (Some fresh_stream))
   \<and> inCall (mount (Some ''0'') (Some fresh_stream))
   \<and> \<not> inCall (mount None (Some fresh_stream))
   \<and> chat_rendered (mount None (Some fresh_stream))"
  by (simp add: link_seconds_abc link_seconds_0 parseInt_abc parseInt_0 isPositive_def mount_def
        readSecondsParam_def truthy_def
        start_defs initial_page_def timer_defs chat_rendered_def room_rendered_def
        CALL_DURATION_LIMIT_MINUTES_def)

section \<open>Properties of ending a call and of the toggles\<close>

lemma endCall_fields:
  "inCall (endCall s) = False" "duration (endCall s) = 0" "selfStreamRef (endCall s) = None"
  by (simp_all add: endCall_def clearTimerRef_def clearInterval_def stopMediaTracks_def
        split: option.splits)

text \<open>
  C5.  \<open>endCall\<close> twice is \<open>endCall\<close> once, from any state: the page is out of the call,
  the elapsed seconds are 0, no stream is held, and the second call stops no track again.
  Clearing the timer without a timer and releasing the tracks without a stream change
  nothing.
\<close>

theorem endCall_twice:
  "endCall (endCall s) = endCall s
   \<and> \<not> inCall (endCall s) \<and> duration (endCall s) = 0 \<and> selfStreamRef (endCall s) = None
   \<and> stoppedTracks (endCall (endCall s)) = stoppedTracks (endCall s)
   \<and> clearTimerRef (s\<lparr>timerRef := None\<rparr>) = s\<lparr>timerRef := None\<rparr>
   \<and> stopMediaTracks (s\<lparr>selfStreamRef := None\<rparr>) = s\<lparr>selfStreamRef := None\<rparr>"
proof -
  have "endCall (endCall s) = endCall s"
    by (simp add: endCall_def clearTimerRef_def clearInterval_def stopMediaTracks_def
          split: option.splits)
  then show ?thesis
    by (simp add: endCall_fields) (simp add: clearTimerRef_def stopMediaTracks_def)
qed

text \<open>
  C8, as the claim states it, fails on the first page: no stream is held, and
  \<open>toggleMic\<close> and \<open>toggleCam\<close> still change their flag.
\<close>

theorem toggle_without_stream_counterexample:
  "selfStreamRef initial_page = None \<and> toggleMic initial_page \<noteq> initial_page
   \<and> micOn (mediaState (toggleMic initial_page)) \<noteq> micOn (mediaState initial_page)
   \<and> toggleCam initial_page \<noteq> initial_page
   \<and> camOn (mediaState (toggleCam initial_page)) \<noteq> camOn (mediaState initial_page)"
  by (simp add: toggleMic_def toggleCam_def initial_page_def)

text \<open>
  C8, amended.  Without a stream, \<open>toggleMic\<close> and \<open>toggleCam\<close> flip their own flag and
  change nothing else: no track is touched and no error arises.
\<close>

theorem toggle_without_stream:
  "selfStreamRef s = None \<Longrightarrow>
     toggleMic s = s\<lparr>mediaState := (mediaState s)\<lparr>micOn := \<not> micOn (mediaState s)\<rparr>\<rparr>
     \<and> toggleCam s = s\<lparr>mediaState := (mediaState s)\<lparr>camOn := \<not> camOn (mediaState s)\<rparr>\<rparr>"
  by (simp add: toggleMic_def toggleCam_def)

theorem toggle_without_stream_witness:
  "selfStreamRef initial_page = None
   \<and> toggleMic initial_page = initial_page\<lparr>mediaState := \<lparr>micOn = False, camOn = True\<rparr>\<rparr>
   \<and> toggleCam initial_page = initial_page\<lparr>mediaState := \<lparr>micOn = True, camOn = False\<rparr>\<rparr>"
proof -
  have h: "selfStreamRef initial_page = None" by (simp add: initial_page_def)
  from toggle_without_stream [OF h] show ?thesis using h by (simp add: initial_page_def)
qed

lemma setEnabled_twice: "setEnabled k b (setEnabled k c ts) = setEnabled k b ts"
  by (induction ts) (simp_all add: setEnabled_def)

lemma setEnabled_id_iff:
  "setEnabled k b ts = ts \<longleftrightarrow> list_all (\<lambda>t. kind t \<noteq> k \<or> enabled t = b) ts"
proof (induction ts)
  case Nil
  show ?case by (simp add: setEnabled_def)
next
  case (Cons t ts)
  have "(t\<lparr>enabled := b\<rparr> = t) = (enabled t = b)"
    by (cases t) auto
  with Cons show ?case by (simp add: setEnabled_def)
qed

lemma toggleMic_twice_eq:
  "toggleMic (toggleMic s) =
     (case selfStreamRef s of
        None \<Rightarrow> s
      | Some ts \<Rightarrow> s\<lparr>selfStreamRef := Some (setEnabled AudioTrack (micOn (mediaState s)) ts)\<rparr>)"
  by (simp add: toggleMic_def Let_def setEnabled_twice split: option.splits)

lemma call_page_eq:
  "call_page =
     initial_page\<lparr>durationLimitSeconds := Some (Number 600), hasDurationParam := True,
                   selfStreamRef := Some fresh_stream, inCall := True, timerRef := Some 1,
                   intervals := [(1, Number 600)], nextTimerId := 2,
                   timerEffectDeps := Some (True, Some (Number 600))\<rparr>"
  by (simp add: call_page_def mount_def readSecondsParam_def truthy_def parseInt_600
        isPositive_def start_defs initial_page_def timer_defs)

lemma toggleMic_twice_iff:
  "micOn (mediaState (toggleMic (toggleMic s))) = micOn (mediaState s)
   \<and> (toggleMic (toggleMic s) = s \<longleftrightarrow> mic_in_sync s)"
proof (cases "selfStreamRef s")
  case None
  then show ?thesis by (simp add: toggleMic_twice_eq mic_in_sync_def)
next
  case (Some ts)
  have "(s\<lparr>selfStreamRef := Some (setEnabled AudioTrack (micOn (mediaState s)) ts)\<rparr> = s)
        = (setEnabled AudioTrack (micOn (mediaState s)) ts = ts)"
    using Some by (cases s) auto
  with Some show ?thesis
    by (simp add: toggleMic_twice_eq mic_in_sync_def setEnabled_id_iff)
qed

lemma mic_in_sync_iff:
  "mic_in_sync s \<longleftrightarrow>
     (\<forall>ts. selfStreamRef s = Some ts \<longrightarrow>
        (\<forall>t \<in> set ts. kind t = AudioTrack \<longrightarrow> enabled t = micOn (mediaState s)))"
  by (auto simp add: mic_in_sync_def list_all_iff split: option.splits)

lemma mic_in_sync_cong:
  "selfStreamRef s' = selfStreamRef s \<Longrightarrow> mediaState s' = mediaState s \<Longrightarrow>
     mic_in_sync s' = mic_in_sync s"
  by (simp add: mic_in_sync_iff)

lemma mic_in_sync_released: "selfStreamRef s = None \<Longrightarrow> mic_in_sync s"
  by (simp add: mic_in_sync_iff)

lemma commit_keeps:
  "selfStreamRef (commit s) = selfStreamRef s" "mediaState (commit s) = mediaState s"
  by (simp_all add: timer_defs Let_def split: option.splits prod.splits)

lemma mic_in_sync_commit: "mic_in_sync (commit s) = mic_in_sync s"
  by (rule mic_in_sync_cong) (rule commit_keeps)+

lemma setEnabled_set:
  "t \<in> set (setEnabled k b ts) \<Longrightarrow>
     (kind t = k \<and> enabled t = b) \<or> (kind t \<noteq> k \<and> t \<in> set ts)"
  by (auto simp add: setEnabled_def)

lemma mic_in_sync_toggleMic: "mic_in_sync (toggleMic s)"
  unfolding mic_in_sync_iff
  by (auto simp add: toggleMic_def Let_def split: option.splits dest: setEnabled_set)

lemma mic_in_sync_toggleCam: "mic_in_sync s \<Longrightarrow> mic_in_sync (toggleCam s)"
  unfolding mic_in_sync_iff
  by (auto simp add: toggleCam_def Let_def split: option.splits dest: setEnabled_set)

lemma mic_in_sync_endCall: "mic_in_sync (endCall s)"
  by (rule mic_in_sync_released) (rule endCall_fields(3))

lemma mic_in_sync_tick: "mic_in_sync s \<Longrightarrow> mic_in_sync (tick_callback l s)"
proof -
  assume s: "mic_in_sync s"
  have "mic_in_sync (s\<lparr>duration := duration s + 1\<rparr>)"
    using s by (simp add: mic_in_sync_iff)
  then show ?thesis
    by (simp add: tick_callback_def Let_def mic_in_sync_endCall)
qed

lemma mic_in_sync_fire: "mic_in_sync s \<Longrightarrow> mic_in_sync (fire_interval iv s)"
  by (simp add: fire_interval_def mic_in_sync_tick)

lemma mic_in_sync_fired:
  "mic_in_sync s \<Longrightarrow> mic_in_sync (foldl (\<lambda>s' iv. fire_interval iv s') s ivs)"
  by (induction ivs arbitrary: s) (simp_all add: mic_in_sync_fire)

lemma mic_in_sync_second: "mic_in_sync s \<Longrightarrow> mic_in_sync (second_elapses s)"
  by (simp add: second_elapses_def mic_in_sync_commit mic_in_sync_fired)

lemma mic_in_sync_config: "mic_in_sync (loadConfig_resolved d s) = mic_in_sync s"
  by (rule mic_in_sync_cong) (simp_all add: loadConfig_resolved_def split: option.splits)

lemma mic_in_sync_chat:
  "mic_in_sync (click_package pkg s) = mic_in_sync s"
  "mic_in_sync (click_channel c s) = mic_in_sync s"
  "mic_in_sync (input_onChange v s) = mic_in_sync s"
  "mic_in_sync (click_continue s) = mic_in_sync s"
  "mic_in_sync (click_back s) = mic_in_sync s"
  "mic_in_sync (click_generate origin s) = mic_in_sync s"
  "mic_in_sync (click_createAnother s) = mic_in_sync s"
  "mic_in_sync (typing_effect s) = mic_in_sync s"
  "mic_in_sync (typing_timeout s) = mic_in_sync s"
  by (simp_all add: mic_in_sync_iff click_package_def selectPackage_onClick_def click_channel_def
        input_onChange_def click_continue_def continue_onClick_def click_back_def
        back_onClick_def click_generate_def generate_onClick_def click_createAnother_def
        createAnother_onClick_def typing_effect_def typing_timeout_def split: option.splits)

lemma readSecondsParam_keeps:
  "selfStreamRef (readSecondsParam q s) = selfStreamRef s"
  "mediaState (readSecondsParam q s) = mediaState s"
  by (simp_all add: readSecondsParam_def split: option.splits)

lemma mic_in_sync_started:
  assumes "delivered_enabled media" "selfStreamRef s = None" "micOn (mediaState s)"
  shows "mic_in_sync (autostart_effect q media s)"
proof (cases media)
  case None
  then show ?thesis using assms(2)
    by (simp add: mic_in_sync_iff start_defs)
next
  case (Some ts)
  then have "\<forall>t \<in> set ts. enabled t" using assms(1) by (simp add: delivered_enabled_def list_all_iff)
  then show ?thesis using Some assms(2,3)
    by (simp add: mic_in_sync_iff start_defs)
qed

lemma mic_in_sync_mount: "delivered_enabled media \<Longrightarrow> mic_in_sync (mount q media)"
  unfolding mount_def mic_in_sync_commit
  by (rule mic_in_sync_started)
     (simp_all add: commit_keeps readSecondsParam_keeps, simp_all add: initial_page_def)

lemma reach_mic_in_sync: "reach s \<Longrightarrow> mic_in_sync s"
proof (induction rule: reach.induct)
  case (reach_mount media q)
  then show ?case by (rule mic_in_sync_mount)
next
  case (reach_toggleMic s)
  show ?case by (simp add: mic_in_sync_commit mic_in_sync_toggleMic)
next
  case (reach_toggleCam s)
  then show ?case by (simp add: mic_in_sync_commit mic_in_sync_toggleCam)
next
  case (reach_endCall s)
  show ?case by (simp add: mic_in_sync_commit mic_in_sync_endCall)
next
  case (reach_second s)
  then show ?case by (simp add: mic_in_sync_second)
next
  case (reach_config s d)
  then show ?case by (simp add: mic_in_sync_commit mic_in_sync_config)
qed (simp_all add: mic_in_sync_chat)

text \<open>
  C7.  On every page the component can be in, \<open>toggleMic\<close> applied twice gives the page
  back: the flag \<open>micOn\<close> is what it was, and so is the stream, hence the \<open>enabled\<close> value
  of every captured audio track.
\<close>

theorem toggleMic_twice_restores:
  "reach s \<Longrightarrow>
     toggleMic (toggleMic s) = s
     \<and> micOn (mediaState (toggleMic (toggleMic s))) = micOn (mediaState s)
     \<and> selfStreamRef (toggleMic (toggleMic s)) = selfStreamRef s"
proof -
  assume "reach s"
  then have "mic_in_sync s" by (rule reach_mic_in_sync)
  then have "toggleMic (toggleMic s) = s" using toggleMic_twice_iff[of s] by simp
  then show ?thesis by simp
qed

theorem toggleMic_twice_restores_witness:
  "reach call_page \<and> selfStreamRef call_page = Some fresh_stream
   \<and> toggleMic (toggleMic call_page) = call_page
   \<and> selfStreamRef (toggleMic call_page) =
       Some [\<lparr>kind = AudioTrack, enabled = False, live = True\<rparr>,
             \<lparr>kind = VideoTrack, enabled = True, live = True\<rparr>]
   \<and> selfStreamRef (toggleMic (toggleMic call_page)) = Some fresh_stream"
proof -
  have "delivered_enabled (Some fresh_stream)"
    by (simp add: delivered_enabled_def fresh_stream_def)
  then have h: "reach call_page" unfolding call_page_def by (rule reach_mount)
  have st: "selfStreamRef call_page = Some fresh_stream"
    by (simp add: call_page_eq initial_page_def)
  have one: "selfStreamRef (toggleMic call_page) =
       Some [\<lparr>kind = AudioTrack, enabled = False, live = True\<rparr>,
             \<lparr>kind = VideoTrack, enabled = True, live = True\<rparr>]"
    by (simp add: toggleMic_def Let_def call_page_eq initial_page_def setEnabled_def fresh_stream_def)
  from toggleMic_twice_restores [OF h] show ?thesis using h st one by simp
qed

section \<open>Properties of the timer\<close>

lemma settled_initial: "settled (commit initial_page)"
  by (simp add: settled_def initial_page_def timer_defs)

lemma settled_inCallD:
  assumes "settled s" "inCall s"
  obtains i where "i \<noteq> 0" "timerRef s = Some i" "intervals s = [(i, effectiveLimitSeconds s)]"
    "timerEffectDeps s = Some (True, durationLimitSeconds s)"
  using assms by (auto simp add: settled_def split: option.splits)

lemma settled_idleD:
  assumes "settled s" "\<not> inCall s"
  shows "timerRef s = None" "intervals s = []" "timerEffectDeps s = Some (False, durationLimitSeconds s)"
  using assms by (auto simp add: settled_def split: option.splits)

lemma second_elapses_idle:
  assumes "settled s" "\<not> inCall s"
  shows "second_elapses s = s"
  using settled_idleD[OF assms] assms(2)
  by (simp add: second_elapses_def commit_def)

lemma second_elapses_running:
  assumes "settled s" "inCall s" "\<not> atLeast_number (duration s + 1) (effectiveLimitSeconds s)"
  shows "second_elapses s = s\<lparr>duration := duration s + 1\<rparr>"
proof -
  from assms(1,2) obtain i where i: "i \<noteq> 0" "timerRef s = Some i"
    "intervals s = [(i, effectiveLimitSeconds s)]"
    "timerEffectDeps s = Some (True, durationLimitSeconds s)"
    by (rule settled_inCallD)
  have "fire_interval (i, effectiveLimitSeconds s) s = s\<lparr>duration := duration s + 1\<rparr>"
    using i assms(3) by (simp add: fire_interval_def tick_callback_def Let_def)
  moreover have "commit (s\<lparr>duration := duration s + 1\<rparr>) = s\<lparr>duration := duration s + 1\<rparr>"
    using i assms(2) by (simp add: commit_def)
  ultimately show ?thesis using i by (simp add: second_elapses_def)
qed

lemma endCall_inCall:
  assumes "timerRef s = Some i" "i \<noteq> 0" "intervals s = [(i, l)]"
  shows "endCall s = (stopMediaTracks s)\<lparr>inCall := False, duration := 0, timerRef := None, intervals := []\<rparr>"
  using assms
  by (simp add: endCall_def stopMediaTracks_def clearTimerRef_def clearInterval_def split: option.splits)

lemma second_elapses_last:
  assumes "settled s" "inCall s" "atLeast_number (duration s + 1) (effectiveLimitSeconds s)"
  shows "second_elapses s =
           (stopMediaTracks s)\<lparr>inCall := False, duration := 0, timerRef := None,
              intervals := [], timerEffectDeps := Some (False, durationLimitSeconds s)\<rparr>"
proof -
  from assms(1,2) obtain i where i: "i \<noteq> 0" "timerRef s = Some i"
    "intervals s = [(i, effectiveLimitSeconds s)]"
    "timerEffectDeps s = Some (True, durationLimitSeconds s)"
    by (rule settled_inCallD)
  let ?e = "(stopMediaTracks s)\<lparr>inCall := False, duration := 0, timerRef := None, intervals := []\<rparr>"
  have "endCall (s\<lparr>duration := duration s + 1\<rparr>) = ?e"
    using i by (simp add: endCall_def stopMediaTracks_def clearTimerRef_def clearInterval_def
          split: option.splits)
  then have "fire_interval (i, effectiveLimitSeconds s) s = ?e"
    using i assms(3) by (simp add: fire_interval_def tick_callback_def Let_def)
  moreover have "commit ?e = ?e\<lparr>timerEffectDeps := Some (False, durationLimitSeconds s)\<rparr>"
    using i by (simp add: commit_def stopMediaTracks_def timer_effect_body_def clearTimerRef_def
          split: option.splits)
  ultimately show ?thesis using i by (simp add: second_elapses_def)
qed

lemma settled_duration [simp]: "settled (s\<lparr>duration := d\<rparr>) = settled s"
  by (simp add: settled_def effectiveLimitSeconds_def split: option.splits)

lemma effectiveLimitSeconds_duration [simp]:
  "effectiveLimitSeconds (s\<lparr>duration := d\<rparr>) = effectiveLimitSeconds s"
  by (simp add: effectiveLimitSeconds_def)

lemma commit_startCall:
  assumes "settled s" "\<not> inCall s"
  shows "commit (startCall (Some stream) s) =
           s\<lparr>connecting := False, permissionError := None, selfStreamRef := Some stream,
             duration := 0, inCall := True,
             intervals := [(nextTimerId s, effectiveLimitSeconds s)],
             timerRef := Some (nextTimerId s), nextTimerId := Suc (nextTimerId s),
             timerEffectDeps := Some (True, durationLimitSeconds s)\<rparr>"
  using settled_idleD[OF assms] assms(2)
  by (simp add: startCall_def requestMedia_def Let_def commit_def
        timer_effect_body_def setInterval_def effectiveLimitSeconds_def)

lemma settled_commit_startCall:
  assumes "settled s" "\<not> inCall s"
  shows "settled (commit (startCall (Some stream) s))"
  using assms(1) unfolding commit_startCall[OF assms]
  by (simp add: settled_def effectiveLimitSeconds_def)

lemma ticks_before_limit:
  assumes "settled s" "inCall s" "duration s = 0" "effectiveLimitSeconds s = Number l"
  shows "int k < l \<Longrightarrow> (second_elapses ^^ k) s = s\<lparr>duration := int k\<rparr>"
proof (induction k)
  case 0
  then show ?case using assms(3) by (cases s) simp
next
  case (Suc k)
  then have "(second_elapses ^^ k) s = s\<lparr>duration := int k\<rparr>" by simp
  moreover have "second_elapses (s\<lparr>duration := int k\<rparr>) = s\<lparr>duration := int k + 1\<rparr>"
    using second_elapses_running[of "s\<lparr>duration := int k\<rparr>"] assms(1,2,4) Suc.prems
    by (simp add: atLeast_number_def)
  ultimately show ?case by (simp add: add.commute)
qed

lemma ticks_idle:
  assumes "settled s" "\<not> inCall s"
  shows "(second_elapses ^^ m) s = s"
  by (induction m) (simp_all add: second_elapses_idle[OF assms])

lemma ticks_at_limit:
  assumes "settled s" "inCall s" "duration s = 0" "effectiveLimitSeconds s = Number (int limit)"
    "0 < limit"
  shows "(second_elapses ^^ limit) s =
           (stopMediaTracks s)\<lparr>inCall := False, duration := 0, timerRef := None,
              intervals := [], timerEffectDeps := Some (False, durationLimitSeconds s)\<rparr>"
proof -
  obtain k where k: "limit = Suc k" using assms(5) by (cases limit) auto
  have "(second_elapses ^^ k) s = s\<lparr>duration := int k\<rparr>"
    using ticks_before_limit[OF assms(1-4), of k] k by simp
  then have "(second_elapses ^^ limit) s = second_elapses (s\<lparr>duration := int k\<rparr>)"
    using k by simp
  also have "\<dots> = (stopMediaTracks (s\<lparr>duration := int k\<rparr>))\<lparr>inCall := False,
              duration := 0, timerRef := None, intervals := [],
              timerEffectDeps := Some (False, durationLimitSeconds (s\<lparr>duration := int k\<rparr>))\<rparr>"
    using assms(1,2,4) k by (intro second_elapses_last) (simp_all add: atLeast_number_def)
  also have "\<dots> = (stopMediaTracks s)\<lparr>inCall := False, duration := 0, timerRef := None,
              intervals := [], timerEffectDeps := Some (False, durationLimitSeconds s)\<rparr>"
    by (simp add: stopMediaTracks_def split: option.splits)
  finally show ?thesis .
qed

lemma settled_ended:
  assumes "nextTimerId s \<noteq> 0"
  shows "settled ((stopMediaTracks s)\<lparr>inCall := False, duration := d, timerRef := None,
              intervals := [], timerEffectDeps := Some (False, durationLimitSeconds s)\<rparr>)"
  using assms by (simp add: settled_def stopMediaTracks_def split: option.splits)

lemma endCall_idle:
  assumes "timerRef s = None"
  shows "endCall s = (stopMediaTracks s)\<lparr>inCall := False, duration := 0\<rparr>"
  using assms
  by (simp add: endCall_def stopMediaTracks_def clearTimerRef_def split: option.splits)

lemma commit_endCall:
  assumes "settled s"
  shows "commit (endCall s) =
           (stopMediaTracks s)\<lparr>inCall := False, duration := 0, timerRef := None,
              intervals := [], timerEffectDeps := Some (False, durationLimitSeconds s)\<rparr>"
proof (cases "inCall s")
  case True
  with assms obtain i where i: "i \<noteq> 0" "timerRef s = Some i"
    "intervals s = [(i, effectiveLimitSeconds s)]"
    "timerEffectDeps s = Some (True, durationLimitSeconds s)"
    by (rule settled_inCallD)
  show ?thesis
    unfolding endCall_inCall[OF i(2,1,3)] using i
    by (simp add: commit_def stopMediaTracks_def timer_effect_body_def clearTimerRef_def
          split: option.splits)
next
  case False
  note idle = settled_idleD[OF assms False]
  show ?thesis
    unfolding endCall_idle[OF idle(1)] using idle False
    by (cases s) (simp add: commit_def stopMediaTracks_def split: option.splits)
qed

lemma endCall_clears_timer:
  assumes "settled s"
  shows "intervals (endCall s) = []" "timerRef (endCall s) = None"
proof -
  show "intervals (endCall s) = []"
  proof (cases "inCall s")
    case True
    with assms obtain i where i: "i \<noteq> 0" "timerRef s = Some i"
      "intervals s = [(i, effectiveLimitSeconds s)]"
      by (rule settled_inCallD)
    show ?thesis unfolding endCall_inCall[OF i(2,1,3)] by simp
  next
    case False
    note idle = settled_idleD[OF assms False]
    show ?thesis unfolding endCall_idle[OF idle(1)] using idle(2)
      by (simp add: stopMediaTracks_def split: option.splits)
  qed
  show "timerRef (endCall s) = None"
  proof (cases "inCall s")
    case True
    with assms obtain i where i: "i \<noteq> 0" "timerRef s = Some i"
      "intervals s = [(i, effectiveLimitSeconds s)]"
      by (rule settled_inCallD)
    show ?thesis unfolding endCall_inCall[OF i(2,1,3)] by simp
  next
    case False
    note idle = settled_idleD[OF assms False]
    show ?thesis unfolding endCall_idle[OF idle(1)] using idle(1)
      by (simp add: stopMediaTracks_def split: option.splits)
  qed
qed

lemma settled_nextTimerId: "settled s \<Longrightarrow> nextTimerId s \<noteq> 0"
  by (simp add: settled_def)


lemma commit_startCall_failed:
  assumes "settled s" "\<not> inCall s"
  shows "commit (startCall None s) = s\<lparr>connecting := False, permissionError := Some humanMessage\<rparr>"
  using settled_idleD[OF assms] assms(2)
  by (simp add: startCall_def requestMedia_def Let_def commit_def)

lemma settled_failed:
  assumes "settled s"
  shows "settled (s\<lparr>connecting := c, permissionError := e\<rparr>)"
  using assms by (simp add: settled_def effectiveLimitSeconds_def split: option.splits)

lemma settled_commit:
  assumes "settled s" "timerRef s' = timerRef s" "intervals s' = intervals s"
    "nextTimerId s' = nextTimerId s" "timerEffectDeps s' = timerEffectDeps s"
  shows "settled (commit s')"
proof (cases "inCall s")
  case True
  with assms(1) obtain i where i: "i \<noteq> 0" "timerRef s = Some i"
    "intervals s = [(i, effectiveLimitSeconds s)]"
    "timerEffectDeps s = Some (True, durationLimitSeconds s)"
    by (rule settled_inCallD)
  have n: "nextTimerId s \<noteq> 0" using assms(1) by (rule settled_nextTimerId)
  show ?thesis
    using i n assms(2-5)
    by (simp add: settled_def commit_def timer_effect_body_def setInterval_def clearTimerRef_def
          clearInterval_def effectiveLimitSeconds_def)
next
  case False
  note idle = settled_idleD[OF assms(1) False]
  have n: "nextTimerId s \<noteq> 0" using assms(1) by (rule settled_nextTimerId)
  show ?thesis
    using idle n assms(2-5)
    by (simp add: settled_def commit_def timer_effect_body_def setInterval_def
          effectiveLimitSeconds_def)
qed

lemma settled_readSecondsParam: "settled s \<Longrightarrow> settled (commit (readSecondsParam q s))"
  by (erule settled_commit) (simp_all add: readSecondsParam_def split: option.splits)

lemma settled_loadConfig: "settled s \<Longrightarrow> settled (commit (loadConfig_resolved d s))"
  by (erule settled_commit) (simp_all add: loadConfig_resolved_def split: option.splits)

lemma settled_startCall: "settled s \<Longrightarrow> settled (commit (startCall media s))"
  by (erule settled_commit)
     (simp_all add: startCall_def requestMedia_def Let_def split: option.splits)

lemma settled_toggleMic: "settled s \<Longrightarrow> settled (commit (toggleMic s))"
  by (erule settled_commit) (simp_all add: toggleMic_def Let_def split: option.splits)

lemma settled_toggleCam: "settled s \<Longrightarrow> settled (commit (toggleCam s))"
  by (erule settled_commit) (simp_all add: toggleCam_def Let_def split: option.splits)

lemma settled_endCall: "settled s \<Longrightarrow> settled (commit (endCall s))"
  unfolding commit_endCall by (rule settled_ended[OF settled_nextTimerId])

lemma settled_second_elapses:
  assumes "settled s"
  shows "settled (second_elapses s)"
proof (cases "inCall s")
  case False
  then show ?thesis using assms by (simp add: second_elapses_idle)
next
  case True
  show ?thesis
  proof (cases "atLeast_number (duration s + 1) (effectiveLimitSeconds s)")
    case False
    then show ?thesis using assms True by (simp add: second_elapses_running)
  next
    case reached: True
    show ?thesis
      unfolding second_elapses_last[OF assms True reached]
      by (rule settled_ended[OF settled_nextTimerId[OF assms]])
  qed
qed

lemma settled_autostart: "settled s \<Longrightarrow> settled (commit (autostart_effect q media s))"
  by (erule settled_commit)
     (simp_all add: autostart_effect_def startCall_def requestMedia_def Let_def
        split: option.splits)

lemma settled_mount: "settled (mount q media)"
  unfolding mount_def
  by (rule settled_autostart[OF settled_readSecondsParam[OF settled_initial]])

lemma link3_page_eq:
  "link3_page =
     initial_page\<lparr>durationLimitSeconds := Some (Number 3), hasDurationParam := True,
                   timerEffectDeps := Some (False, Some (Number 3))\<rparr>"
  by (simp add: link3_page_def readSecondsParam_def truthy_def parseInt_3 isPositive_def
        initial_page_def timer_defs)

lemma link3_page_facts:
  "settled link3_page" "\<not> inCall link3_page" "effectiveLimitSeconds link3_page = Number (int 3)"
  by (simp_all add: link3_page_eq settled_def effectiveLimitSeconds_def initial_page_def)

lemma call_run:
  assumes "settled s" "\<not> inCall s" "effectiveLimitSeconds s = Number (int limit)" "0 < limit"
  shows "k < limit \<Longrightarrow>
           call_after k stream s = (commit (startCall (Some stream) s))\<lparr>duration := int k\<rparr>"
    and "limit \<le> k \<Longrightarrow>
           call_after k stream s =
             (stopMediaTracks (commit (startCall (Some stream) s)))
               \<lparr>inCall := False, duration := 0, timerRef := None, intervals := [],
                timerEffectDeps := Some (False, durationLimitSeconds s)\<rparr>"
    and "inCall (commit (startCall (Some stream) s))"
    and "stoppedTracks (stopMediaTracks (commit (startCall (Some stream) s)))
           = stoppedTracks s @ map stop stream"
proof -
  let ?s0 = "commit (startCall (Some stream) s)"
  have s0: "settled ?s0" "inCall ?s0" "duration ?s0 = 0"
    "effectiveLimitSeconds ?s0 = Number (int limit)"
    "nextTimerId ?s0 \<noteq> 0" "selfStreamRef ?s0 = Some stream" "stoppedTracks ?s0 = stoppedTracks s"
    "durationLimitSeconds ?s0 = durationLimitSeconds s"
    using settled_commit_startCall[OF assms(1,2)] assms(3)
    by (simp_all add: commit_startCall[OF assms(1,2)] effectiveLimitSeconds_def)
  let ?e = "(stopMediaTracks ?s0)\<lparr>inCall := False, duration := 0, timerRef := None,
              intervals := [], timerEffectDeps := Some (False, durationLimitSeconds s)\<rparr>"
  show "inCall ?s0" by (rule s0(2))
  show "stoppedTracks (stopMediaTracks ?s0) = stoppedTracks s @ map stop stream"
    using s0(6,7) by (simp add: stopMediaTracks_def)
  show "call_after k stream s = ?s0\<lparr>duration := int k\<rparr>" if "k < limit"
    using ticks_before_limit[OF s0(1-4), of k] that by (simp add: call_after_def)
  have at: "call_after limit stream s = ?e"
    using ticks_at_limit[OF s0(1-4) assms(4)] s0(8) by (simp add: call_after_def)
  have e: "settled ?e" "\<not> inCall ?e"
    using settled_ended[OF s0(5), of 0] s0(8) by simp_all
  show "call_after k stream s = ?e" if "limit \<le> k"
  proof -
    define m where "m = k - limit"
    have m: "k = m + limit" using that by (simp add: m_def)
    have "call_after (m + limit) stream s = (second_elapses ^^ m) (call_after limit stream s)"
      unfolding call_after_def by (simp only: funpow_add o_apply)
    also have "\<dots> = ?e" unfolding at by (rule ticks_idle[OF e])
    finally show ?thesis unfolding m .
  qed
qed

text \<open>
  C3, as the claim states it, fails in its last part: in the tick that reaches the limit
  the \<open>endCall\<close> called by the updater resets the elapsed seconds, and the page ends that
  tick with 0, not with the limit.  With the limit 3: 2 after two ticks, 0 after three.
\<close>

theorem call_ends_after_limit_ticks_counterexample:
  "inCall (call_after 2 fresh_stream link3_page)
   \<and> duration (call_after 2 fresh_stream link3_page) = 2
   \<and> \<not> inCall (call_after 3 fresh_stream link3_page)
   \<and> duration (call_after 3 fresh_stream link3_page) = 0
   \<and> duration (call_after 3 fresh_stream link3_page) \<noteq> 3"
proof -
  have pos: "(0::nat) < 3" by simp
  note r = call_run [OF link3_page_facts pos, where stream = fresh_stream]
  have two: "call_after 2 fresh_stream link3_page
               = (commit (startCall (Some fresh_stream) link3_page))\<lparr>duration := int 2\<rparr>"
    by (rule r(1)) simp
  have three: "call_after 3 fresh_stream link3_page =
             (stopMediaTracks (commit (startCall (Some fresh_stream) link3_page)))
               \<lparr>inCall := False, duration := 0, timerRef := None, intervals := [],
                timerEffectDeps := Some (False, durationLimitSeconds link3_page)\<rparr>"
    by (rule r(2)) simp
  show ?thesis using r(3) by (simp add: two three)
qed

text \<open>
  C3, amended.  Let a call start on a settled page that is not in a call and whose
  effective limit is \<open>limit > 0\<close>.  Then the call is on after \<open>k\<close> seconds exactly when
  \<open>k < limit\<close>; the step from on to off happens at the tick number \<open>limit\<close> and at no
  other; the elapsed seconds after \<open>k < limit\<close> ticks are \<open>k\<close>, and 0 from the tick number
  \<open>limit\<close> on, since the \<open>endCall\<close> of that tick resets them; after that tick the page does
  not change any more, and the captured tracks were stopped once.
\<close>

theorem call_ends_after_limit_ticks:
  assumes "settled s" "\<not> inCall s" "effectiveLimitSeconds s = Number (int limit)" "0 < limit"
  shows "(\<forall>k. inCall (call_after k stream s) \<longleftrightarrow> k < limit)
       \<and> (\<forall>k. inCall (call_after k stream s) \<and> \<not> inCall (call_after (Suc k) stream s)
                \<longleftrightarrow> Suc k = limit)
       \<and> (\<forall>k<limit. duration (call_after k stream s) = int k)
       \<and> (\<forall>k\<ge>limit. duration (call_after k stream s) = 0)
       \<and> (\<forall>k\<ge>limit. call_after k stream s = call_after limit stream s)
       \<and> stoppedTracks (call_after limit stream s) = stoppedTracks s @ map stop stream"
proof -
  note r = call_run [OF assms, where stream = stream]
  have inCall_iff: "inCall (call_after k stream s) \<longleftrightarrow> k < limit" for k
  proof (cases "k < limit")
    case True
    then show ?thesis using r(1)[of k] r(3) by simp
  next
    case False
    then have "limit \<le> k" by simp
    then show ?thesis using r(2)[of k] False by simp
  qed
  have once: "inCall (call_after k stream s) \<and> \<not> inCall (call_after (Suc k) stream s)
                \<longleftrightarrow> Suc k = limit" for k
    unfolding inCall_iff by auto
  have dur: "duration (call_after k stream s) = int k" if "k < limit" for k
    using r(1)[OF that] by simp
  have zero: "duration (call_after k stream s) = 0" if "limit \<le> k" for k
    using r(2)[OF that] by simp
  have stay: "call_after k stream s = call_after limit stream s" if "limit \<le> k" for k
    using r(2)[OF that] r(2)[of limit] by simp
  have stopped: "stoppedTracks (call_after limit stream s) = stoppedTracks s @ map stop stream"
    using r(2)[of limit] r(4) by simp
  show ?thesis
    using inCall_iff once dur zero stay stopped by blast
qed

theorem call_ends_after_limit_ticks_witness:
  "settled link3_page \<and> \<not> inCall link3_page
   \<and> effectiveLimitSeconds link3_page = Number (int 3)
   \<and> inCall (call_after 2 fresh_stream link3_page)
   \<and> \<not> inCall (call_after 3 fresh_stream link3_page)
   \<and> duration (call_after 2 fresh_stream link3_page) = 2
   \<and> duration (call_after 3 fresh_stream link3_page) = 0
   \<and> call_after 7 fresh_stream link3_page = call_after 3 fresh_stream link3_page"
proof -
  have pos: "(0::nat) < 3" by simp
  note t = call_ends_after_limit_ticks [OF link3_page_facts pos, of fresh_stream]
  have a: "inCall (call_after 2 fresh_stream link3_page)"
    using t [THEN conjunct1, rule_format, of 2] by simp
  have a': "\<not> inCall (call_after 3 fresh_stream link3_page)"
    using t [THEN conjunct1, rule_format, of 3] by simp
  have b: "duration (call_after 2 fresh_stream link3_page) = 2"
    using t [THEN conjunct2, THEN conjunct2, THEN conjunct1, rule_format, of 2] by simp
  have b': "duration (call_after 3 fresh_stream link3_page) = 0"
    using t [THEN conjunct2, THEN conjunct2, THEN conjunct2, THEN conjunct1, rule_format, of 3]
    by simp
  have c: "call_after 7 fresh_stream link3_page = call_after 3 fresh_stream link3_page"
    using t [THEN conjunct2, THEN conjunct2, THEN conjunct2, THEN conjunct2, THEN conjunct1,
             rule_format, of 7]
    by simp
  show ?thesis using link3_page_facts a a' b b' c by simp
qed

text \<open>
  C4, as the claim states it, fails: the callback of the interval does not look at the
  call state.  Run on a page whose call was ended, it sets the elapsed seconds to 1.
\<close>

theorem tick_callback_unguarded_counterexample:
  "\<not> inCall (commit (endCall call_page)) \<and> duration (commit (endCall call_page)) = 0
   \<and> duration (tick_callback (Number 600) (commit (endCall call_page))) = 1
   \<and> tick_callback (Number 600) (commit (endCall call_page)) \<noteq> commit (endCall call_page)"
proof -
  have a: "\<not> inCall (commit (endCall call_page))" "duration (commit (endCall call_page)) = 0"
    by (simp_all add: call_page_eq endCall_def stopMediaTracks_def initial_page_def timer_defs)
  have b: "duration (tick_callback (Number 600) (commit (endCall call_page))) = 1"
    using a by (simp add: tick_callback_def Let_def atLeast_number_def)
  have "duration (tick_callback (Number 600) (commit (endCall call_page)))
          \<noteq> duration (commit (endCall call_page))"
    unfolding a b by simp
  then have "tick_callback (Number 600) (commit (endCall call_page)) \<noteq> commit (endCall call_page)"
    by auto
  with a b show ?thesis by simp
qed

text \<open>
  C4, amended.  On a settled page \<open>endCall\<close> clears the interval and \<open>timerRef\<close>, so no
  callback runs afterwards: however many seconds pass, before or after the next render,
  the page stays as \<open>endCall\<close> and that render left it, out of the call, with 0 elapsed
  seconds, no stream, and the tracks stopped once.
\<close>

theorem no_tick_after_endCall:
  assumes "settled s"
  shows "intervals (endCall s) = [] \<and> timerRef (endCall s) = None
       \<and> (second_elapses ^^ Suc n) (endCall s) = commit (endCall s)
       \<and> (second_elapses ^^ n) (commit (endCall s)) = commit (endCall s)
       \<and> \<not> inCall (commit (endCall s)) \<and> duration (commit (endCall s)) = 0
       \<and> selfStreamRef (commit (endCall s)) = None
       \<and> stoppedTracks (commit (endCall s)) = stoppedTracks (endCall s)"
proof -
  let ?c = "commit (endCall s)"
  note c = commit_endCall[OF assms]
  have sc: "settled ?c" unfolding c by (rule settled_ended[OF settled_nextTimerId[OF assms]])
  have nc: "\<not> inCall ?c" unfolding c by simp
  have idle: "(second_elapses ^^ n) ?c = ?c" by (rule ticks_idle[OF sc nc])
  have first: "second_elapses (endCall s) = ?c"
    using endCall_clears_timer(1)[OF assms] by (simp add: second_elapses_def)
  have "(second_elapses ^^ Suc n) (endCall s) = (second_elapses ^^ n) (second_elapses (endCall s))"
    by (simp only: funpow_Suc_right o_apply)
  then have later: "(second_elapses ^^ Suc n) (endCall s) = ?c"
    using first idle by simp
  have fields: "duration ?c = 0" "selfStreamRef ?c = None" "stoppedTracks ?c = stoppedTracks (endCall s)"
    unfolding c
    by (simp_all add: endCall_def stopMediaTracks_def clearTimerRef_def clearInterval_def
          split: option.splits)
  show ?thesis
    using endCall_clears_timer[OF assms] later idle nc fields by simp
qed

theorem no_tick_after_endCall_witness:
  "settled call_page
   \<and> intervals (endCall call_page) = []
   \<and> (second_elapses ^^ 3) (endCall call_page) = commit (endCall call_page)
   \<and> duration (commit (endCall call_page)) = 0"
proof -
  have h: "settled call_page" unfolding call_page_def by (rule settled_mount)
  have three: "Suc 2 = 3" by simp
  from no_tick_after_endCall [OF h, of 2] show ?thesis using h unfolding three by simp
qed

text \<open>
  C6.  On a settled page that is not in a call, a start whose capture request is
  rejected leaves the page as it was but for the fixed message in \<open>permissionError\<close>
  (and \<open>connecting\<close> false): it is not in a call, no interval is registered, and no second
  that passes changes it.  A following start whose request is granted succeeds: the call
  is on, the message is cleared, the stream is held, the elapsed seconds are 0, and the
  interval runs with the effective limit.
\<close>

theorem failed_start_is_retryable:
  assumes "settled s" "\<not> inCall s"
  shows "failed_start s = s\<lparr>connecting := False, permissionError := Some humanMessage\<rparr>
       \<and> \<not> inCall (failed_start s) \<and> \<not> connecting (failed_start s)
       \<and> permissionError (failed_start s) = Some humanMessage
       \<and> intervals (failed_start s) = [] \<and> timerRef (failed_start s) = None
       \<and> (second_elapses ^^ n) (failed_start s) = failed_start s
       \<and> inCall (commit (startCall (Some stream) (failed_start s)))
       \<and> \<not> connecting (commit (startCall (Some stream) (failed_start s)))
       \<and> permissionError (commit (startCall (Some stream) (failed_start s))) = None
       \<and> selfStreamRef (commit (startCall (Some stream) (failed_start s))) = Some stream
       \<and> duration (commit (startCall (Some stream) (failed_start s))) = 0
       \<and> intervals (commit (startCall (Some stream) (failed_start s)))
            = [(nextTimerId s, effectiveLimitSeconds s)]"
proof -
  let ?f = "s\<lparr>connecting := False, permissionError := Some humanMessage\<rparr>"
  have f: "failed_start s = ?f"
    unfolding failed_start_def by (rule commit_startCall_failed[OF assms])
  have sf: "settled ?f" by (rule settled_failed[OF assms(1)])
  have nf: "\<not> inCall ?f" using assms(2) by simp
  have quiet: "(second_elapses ^^ n) ?f = ?f" by (rule ticks_idle[OF sf nf])
  note idle = settled_idleD[OF assms]
  note retry = commit_startCall[OF sf nf, of stream]
  show ?thesis
    unfolding f retry using assms(2) idle(1,2) quiet
    by (simp add: effectiveLimitSeconds_def)
qed

theorem failed_start_is_retryable_witness:
  "settled link3_page \<and> \<not> inCall link3_page
   \<and> \<not> inCall (failed_start link3_page)
   \<and> permissionError (failed_start link3_page) = Some humanMessage
   \<and> intervals (failed_start link3_page) = []
   \<and> (second_elapses ^^ 5) (failed_start link3_page) = failed_start link3_page
   \<and> inCall (commit (startCall (Some fresh_stream) (failed_start link3_page)))
   \<and> permissionError (commit (startCall (Some fresh_stream) (failed_start link3_page))) = None"
proof -
  note t = failed_start_is_retryable [OF link3_page_facts(1,2), of 5 fresh_stream]
  show ?thesis using link3_page_facts(1,2) t by blast
qed

end
